theory Spec2Isabelle
  imports Main "HOL-Library.Sublist" "HOL-Library.AList"
begin

section \<open>Strings\<close>

text \<open>
  A JavaScript string is a sequence of UTF-16 code units. The server only ever compares
  code units with ASCII constants, so a code unit is a natural number and a string a list
  of them; \<open>js\<close> turns a literal into such a list.
\<close>

type_synonym code_unit = nat
type_synonym jsstring = "code_unit list"

definition js :: "string \<Rightarrow> jsstring" where
  "js s = map of_char s"

section \<open>Input validation\<close>

text \<open>
  \<open>String.prototype.trim\<close> strips the ECMAScript WhiteSpace and LineTerminator code
  units from both ends: TAB, LF, VT, FF, CR, SP, NBSP, U+1680, U+2000..U+200A, U+2028,
  U+2029, U+202F, U+205F, U+3000 and U+FEFF.
\<close>

definition isWhiteSpace :: "code_unit \<Rightarrow> bool" where
  "isWhiteSpace c \<longleftrightarrow>
     c = 9 \<or> c = 10 \<or> c = 11 \<or> c = 12 \<or> c = 13 \<or> c = 32 \<or> c = 160 \<or> c = 5760
     \<or> (8192 \<le> c \<and> c \<le> 8202) \<or> c = 8232 \<or> c = 8233 \<or> c = 8239 \<or> c = 8287
     \<or> c = 12288 \<or> c = 65279"

definition trim :: "jsstring \<Rightarrow> jsstring" where
  "trim s = rev (dropWhile isWhiteSpace (rev (dropWhile isWhiteSpace s)))"

text \<open>The character class \<^verbatim>\<open>[a-zA-Z0-9_-]\<close> (also \<^verbatim>\<open>[a-z0-9_-]\<close> under the flag \<^verbatim>\<open>i\<close>).\<close>

definition isWordChar :: "code_unit \<Rightarrow> bool" where
  "isWordChar c \<longleftrightarrow>
     (97 \<le> c \<and> c \<le> 122) \<or> (65 \<le> c \<and> c \<le> 90) \<or> (48 \<le> c \<and> c \<le> 57) \<or> c = 95 \<or> c = 45"

text \<open>
  The greedy quantifier \<^verbatim>\<open>[a-zA-Z0-9_-]{1,64}\<close>: \<open>matchUpTo n s\<close> consumes at most \<open>n\<close>
  class characters from the front of \<open>s\<close> and returns what is left. The pattern
  \<^verbatim>\<open>/^[a-zA-Z0-9_-]{1,64}$/\<close> matches when at least one character was consumed and
  nothing is left for \<^verbatim>\<open>$\<close>.
\<close>

fun matchUpTo :: "nat \<Rightarrow> jsstring \<Rightarrow> jsstring" where
  "matchUpTo 0 s = s"
| "matchUpTo (Suc n) [] = []"
| "matchUpTo (Suc n) (c # s) = (if isWordChar c then matchUpTo n s else c # s)"

definition roomPattern :: "jsstring \<Rightarrow> bool" where
  "roomPattern v \<longleftrightarrow> v \<noteq> [] \<and> matchUpTo 64 v = []"

definition sanitizeRoom :: "jsstring \<Rightarrow> jsstring" where
  "sanitizeRoom input =
     (let v = trim input in
      if v = [] then js ''lobby''
      else if \<not> roomPattern v then js ''lobby''
      else v)"

text \<open>
  The room key as the specification words it: 1 to 64 characters, each a letter, a digit,
  an underscore or a hyphen.
\<close>

definition isLetter :: "code_unit \<Rightarrow> bool" where
  "isLetter c \<longleftrightarrow> c \<in> set (js ''abcdefghijklmnopqrstuvwxyzABCDEFGHIJKLMNOPQRSTUVWXYZ'')"

definition isDigit :: "code_unit \<Rightarrow> bool" where
  "isDigit c \<longleftrightarrow> c \<in> set (js ''0123456789'')"

definition validRoomKey :: "jsstring \<Rightarrow> bool" where
  "validRoomKey v \<longleftrightarrow>
     1 \<le> length v \<and> length v \<le> 64 \<and>
     list_all (\<lambda>c. isLetter c \<or> isDigit c \<or> [c] = js ''_'' \<or> [c] = js ''-'') v"

text \<open>
  \<open>sanitizeName\<close> reads the clock when the trimmed input is empty; \<open>isoNow\<close> is the
  ISO-8601 string of that reading. \<^verbatim>\<open>replace(/[^a-zA-Z0-9 _-]/g, '_')\<close> rewrites code
  unit by code unit and \<^verbatim>\<open>slice(0, 100)\<close> keeps the first 100.
\<close>

definition sanitizeName :: "jsstring \<Rightarrow> jsstring \<Rightarrow> jsstring" where
  "sanitizeName isoNow input =
     (let v = trim input in
      if v = [] then isoNow
      else take 100 (map (\<lambda>c. if isWordChar c \<or> c = 32 then c else 95) v))"

section \<open>Paths\<close>

text \<open>
  A path is the list of its segments below the server's directory \<^verbatim>\<open>__dirname\<close>, which
  is the origin \<open>[]\<close>; a leading \<^verbatim>\<open>..\<close> segment leaves that directory.
  \<open>path_join dir s\<close> is \<^verbatim>\<open>path.join(dir, s)\<close> on POSIX: the string is cut at every
  slash and the segments are normalised from left to right (an empty segment and
  \<^verbatim>\<open>.\<close> are dropped, \<^verbatim>\<open>..\<close> removes the segment before it).
\<close>

type_synonym path = "jsstring list"

fun splitSlash :: "jsstring \<Rightarrow> jsstring list" where
  "splitSlash [] = [[]]"
| "splitSlash (c # s) =
     (if c = 47 then [] # splitSlash s
      else (case splitSlash s of [] \<Rightarrow> [[c]] | seg # segs \<Rightarrow> (c # seg) # segs))"

definition normalizeSegment :: "path \<Rightarrow> jsstring \<Rightarrow> path" where
  "normalizeSegment res seg =
     (if seg = [] \<or> seg = js ''.'' then res
      else if seg = js ''..'' then
        (if res \<noteq> [] \<and> last res \<noteq> js ''..'' then butlast res else res @ [js ''..''])
      else res @ [seg])"

definition path_join :: "path \<Rightarrow> jsstring \<Rightarrow> path" where
  "path_join dir s = foldl normalizeSegment dir (splitSlash s)"

definition dataDir :: path where
  "dataDir = path_join [] (js ''data'')"

definition fileForRoom :: "jsstring \<Rightarrow> path" where
  "fileForRoom room = path_join dataDir (room @ js ''.json'')"

definition snapshotsDir :: path where
  "snapshotsDir = path_join [] (js ''snapshots'')"

text \<open>\<^verbatim>\<open>name.replace(/[^a-z0-9_-]/gi, '_')\<close>, the file-safe form of a snapshot name.\<close>

definition replaceUnsafe :: "jsstring \<Rightarrow> jsstring" where
  "replaceUnsafe name = map (\<lambda>c. if isWordChar c then c else 95) name"

definition snapshotFile :: "jsstring \<Rightarrow> jsstring \<Rightarrow> path" where
  "snapshotFile room name =
     (let safe = replaceUnsafe name
      in path_join snapshotsDir (room @ js ''__'' @ safe @ js ''.json''))"

section \<open>Points and stored values\<close>

text \<open>
  A point as it travels and is stored. The server never computes with the coordinates or
  the width, so they are integers here. \<open>pt_strokeId\<close> is absent when the client sent
  none; \<open>pt_order\<close> is the field the database backend adds. The selectors carry the
  prefix \<open>pt_\<close> because \<open>x\<close>, \<open>y\<close> and \<open>type\<close> cannot name constants.
\<close>

record point =
  pt_x :: int
  pt_y :: int
  pt_type :: jsstring
  pt_color :: jsstring
  pt_width :: int
  pt_strokeId :: "jsstring option"
  pt_order :: "nat option"

text \<open>
  The JSON values the server writes: an array of points (a room's log) and the snapshot
  object \<^verbatim>\<open>{room, name, data, createdAt}\<close>, whose \<open>data\<close> is whatever
  \<open>loadStrokes\<close> returned.
\<close>

datatype json =
  JArr "point list"
| JObj (snap_room: jsstring) (snap_name: jsstring) (snap_data: json) (snap_createdAt: nat)

section \<open>The file system\<close>

text \<open>
  A file holds text that \<^verbatim>\<open>JSON.parse\<close> accepts (\<open>Json\<close>) or rejects (\<open>Garbage\<close>), or
  it cannot be read at all. The file system lists its files in directory order and names
  the paths where a write fails.
\<close>

datatype content = Garbage | Json json

datatype stored_file = Unreadable | Text content

record filesystem =
  entries :: "(path \<times> stored_file) list"
  unwritable :: "path list"

datatype js_error = IOError | SyntaxError | TypeError

definition existsSync :: "filesystem \<Rightarrow> path \<Rightarrow> bool" where
  "existsSync fs p \<longleftrightarrow> map_of (entries fs) p \<noteq> None"

definition readFileSync :: "filesystem \<Rightarrow> path \<Rightarrow> js_error + content" where
  "readFileSync fs p =
     (case map_of (entries fs) p of
        None \<Rightarrow> Inl IOError
      | Some Unreadable \<Rightarrow> Inl IOError
      | Some (Text c) \<Rightarrow> Inr c)"

definition writeFileSync :: "filesystem \<Rightarrow> path \<Rightarrow> content \<Rightarrow> js_error + filesystem" where
  "writeFileSync fs p c =
     (if p \<in> set (unwritable fs) then Inl IOError
      else Inr (fs\<lparr>entries := AList.update p (Text c) (entries fs)\<rparr>))"

definition readdirSync :: "filesystem \<Rightarrow> path \<Rightarrow> jsstring list" where
  "readdirSync fs dir = map (last \<circ> fst) (filter (\<lambda>(p, f). p \<noteq> [] \<and> butlast p = dir) (entries fs))"

definition JSON_parse :: "content \<Rightarrow> js_error + json" where
  "JSON_parse raw = (case raw of Garbage \<Rightarrow> Inl SyntaxError | Json v \<Rightarrow> Inr v)"

definition JSON_stringify :: "json \<Rightarrow> content" where
  "JSON_stringify v = Json v"

section \<open>The file backend\<close>

definition loadStrokes :: "filesystem \<Rightarrow> jsstring \<Rightarrow> json" where
  "loadStrokes fs room =
     (let f = fileForRoom room in
      if \<not> existsSync fs f then JArr []
      else (case readFileSync fs f of
              Inl e \<Rightarrow> JArr []
            | Inr raw \<Rightarrow> (case JSON_parse raw of Inl e \<Rightarrow> JArr [] | Inr v \<Rightarrow> v)))"

definition saveStrokes :: "filesystem \<Rightarrow> jsstring \<Rightarrow> point list \<Rightarrow> filesystem" where
  "saveStrokes fs room strokes =
     (case writeFileSync fs (fileForRoom room) (JSON_stringify (JArr strokes)) of
        Inl e \<Rightarrow> fs
      | Inr fs' \<Rightarrow> fs')"

text \<open>\<^verbatim>\<open>strokes.push\<close> is not a function when the file held an object: a TypeError.\<close>

definition appendStroke :: "filesystem \<Rightarrow> jsstring \<Rightarrow> point \<Rightarrow> js_error + filesystem" where
  "appendStroke fs room stroke =
     (case loadStrokes fs room of
        JArr strokes \<Rightarrow> Inr (saveStrokes fs room (strokes @ [stroke]))
      | JObj _ _ _ _ \<Rightarrow> Inl TypeError)"

text \<open>
  The loop \<^verbatim>\<open>for (let i = strokes.length - 1; i >= 0; i--)\<close>, counted by \<open>i + 1\<close>: the
  index of the first \<^verbatim>\<open>start\<close> point met while going down.
\<close>

primrec scanBack :: "point list \<Rightarrow> nat \<Rightarrow> nat option" where
  "scanBack strokes 0 = None"
| "scanBack strokes (Suc i) =
     (if pt_type (strokes ! i) = js ''start'' then Some i else scanBack strokes i)"

text \<open>
  On an object \<^verbatim>\<open>strokes.length\<close> is undefined, the loop body never runs and the log is
  overwritten with the empty array.
\<close>

definition removeLastStroke :: "filesystem \<Rightarrow> jsstring \<Rightarrow> filesystem \<times> point list" where
  "removeLastStroke fs room =
     (case loadStrokes fs room of
        JArr strokes \<Rightarrow>
          (case scanBack strokes (length strokes) of
             Some i \<Rightarrow> (let newArr = take i strokes in (saveStrokes fs room newArr, newArr))
           | None \<Rightarrow> (saveStrokes fs room [], []))
      | JObj _ _ _ _ \<Rightarrow> (saveStrokes fs room [], []))"

text \<open>
  Snapshots. \<open>isoNow\<close> and \<open>now\<close> are the two readings of the clock in
  \<open>saveSnapshotFile\<close>: the ISO string that replaces an empty name, and
  \<^verbatim>\<open>Date.now()\<close>. The function returns \<^verbatim>\<open>{room, name, path}\<close>.
\<close>

definition saveSnapshotFile ::
  "filesystem \<Rightarrow> jsstring \<Rightarrow> jsstring \<Rightarrow> jsstring \<Rightarrow> nat
     \<Rightarrow> js_error + (filesystem \<times> (jsstring \<times> jsstring \<times> path))" where
  "saveSnapshotFile fs room name isoNow now =
     (let data = loadStrokes fs room;
          f = snapshotFile room (if name = [] then isoNow else name)
      in case writeFileSync fs f (JSON_stringify (JObj room name data now)) of
           Inl e \<Rightarrow> Inl e
         | Inr fs' \<Rightarrow> Inr (fs', (room, name, f)))"

text \<open>
  The metadata \<^verbatim>\<open>{room: raw.room, name: raw.name, createdAt: raw.createdAt}\<close> of a parsed
  file; all three are undefined when the file held an array.
\<close>

datatype meta = Meta jsstring jsstring nat | MetaUndefined

definition metaOf :: "json \<Rightarrow> meta" where
  "metaOf raw = (case raw of JObj r n d t \<Rightarrow> Meta r n t | JArr ps \<Rightarrow> MetaUndefined)"

fun readMetas :: "filesystem \<Rightarrow> jsstring list \<Rightarrow> js_error + meta list" where
  "readMetas fs [] = Inr []"
| "readMetas fs (f # files) =
     (case readFileSync fs (path_join snapshotsDir f) of
        Inl e \<Rightarrow> Inl e
      | Inr body \<Rightarrow>
          (case JSON_parse body of
             Inl e \<Rightarrow> Inl e
           | Inr raw \<Rightarrow>
               (case readMetas fs files of
                  Inl e \<Rightarrow> Inl e
                | Inr ms \<Rightarrow> Inr (metaOf raw # ms))))"

definition listSnapshotsFile :: "filesystem \<Rightarrow> jsstring \<Rightarrow> js_error + meta list" where
  "listSnapshotsFile fs room =
     (let files = filter (\<lambda>f. prefix (room @ js ''__'') f \<and> suffix (js ''.json'') f)
                    (readdirSync fs snapshotsDir)
      in readMetas fs files)"

text \<open>\<^verbatim>\<open>raw.data || []\<close>: an array and an object are both truthy; an array has no \<open>data\<close>.\<close>

definition loadSnapshotFile :: "filesystem \<Rightarrow> jsstring \<Rightarrow> jsstring \<Rightarrow> js_error + json option" where
  "loadSnapshotFile fs room name =
     (let f = snapshotFile room name in
      if \<not> existsSync fs f then Inr None
      else (case readFileSync fs f of
              Inl e \<Rightarrow> Inl e
            | Inr body \<Rightarrow>
                (case JSON_parse body of
                   Inl e \<Rightarrow> Inl e
                 | Inr raw \<Rightarrow>
                     (case raw of
                        JObj r n d t \<Rightarrow> Inr (Some d)
                      | JArr ps \<Rightarrow> Inr (Some (JArr []))))))"

text \<open>
  The REST handlers of the file backend (the branch \<^verbatim>\<open>useMongo = false\<close>): each wraps
  the store call in \<^verbatim>\<open>try\<close>/\<^verbatim>\<open>catch\<close> and answers 500 with the error.
\<close>

datatype response =
  Ok_list "meta list"
| Ok_saved "jsstring \<times> jsstring \<times> path"
| Ok_data json
| NotFound_404
| Error_500 js_error

definition get_snapshots :: "filesystem \<Rightarrow> jsstring \<Rightarrow> response" where
  "get_snapshots fs rawRoom =
     (let room = sanitizeRoom rawRoom in
      case listSnapshotsFile fs room of Inl e \<Rightarrow> Error_500 e | Inr list \<Rightarrow> Ok_list list)"

definition post_snapshots ::
  "filesystem \<Rightarrow> jsstring \<Rightarrow> jsstring \<Rightarrow> jsstring \<Rightarrow> nat \<Rightarrow> filesystem \<times> response" where
  "post_snapshots fs rawRoom rawName isoNow now =
     (let room = sanitizeRoom rawRoom; name = sanitizeName isoNow rawName in
      case saveSnapshotFile fs room name isoNow now of
        Inl e \<Rightarrow> (fs, Error_500 e)
      | Inr (fs', result) \<Rightarrow> (fs', Ok_saved result))"

definition get_snapshot :: "filesystem \<Rightarrow> jsstring \<Rightarrow> jsstring \<Rightarrow> jsstring \<Rightarrow> response" where
  "get_snapshot fs rawRoom idOrName isoNow =
     (let room = sanitizeRoom rawRoom; key = sanitizeName isoNow idOrName in
      case loadSnapshotFile fs room key of
        Inl e \<Rightarrow> Error_500 e
      | Inr None \<Rightarrow> NotFound_404
      | Inr (Some data) \<Rightarrow> Ok_data data)"

section \<open>The database backend\<close>

text \<open>
  A stroke document \<^verbatim>\<open>{_id, room, strokeId, points, createdAt}\<close>. The collection is the
  list of its documents in insertion order; \<open>nextId\<close> is the next fresh \<^verbatim>\<open>_id\<close>.
\<close>

record stroke_doc =
  sd_id :: nat
  sd_room :: jsstring
  sd_strokeId :: jsstring
  sd_points :: "point list"
  sd_createdAt :: nat

record database =
  strokeDocs :: "stroke_doc list"
  nextId :: nat

text \<open>
  The pushed value \<^verbatim>\<open>{...pt, order: Date.now()}\<close> as \<open>pointSchema\<close> casts it: the schema
  has the paths x, y, type, color, width and order, and no \<open>strokeId\<close>.
\<close>

definition castPoint :: "point \<Rightarrow> nat \<Rightarrow> point" where
  "castPoint pt now = pt\<lparr>pt_strokeId := None, pt_order := Some now\<rparr>"

text \<open>
  \<^verbatim>\<open>updateOne({room, strokeId}, {$push: ...})\<close>: the first matching document gets the
  point; \<open>None\<close> when no document matches.
\<close>

fun updateOnePush ::
  "jsstring \<Rightarrow> jsstring \<Rightarrow> point \<Rightarrow> stroke_doc list \<Rightarrow> stroke_doc list option" where
  "updateOnePush room strokeId p [] = None"
| "updateOnePush room strokeId p (d # ds) =
     (if sd_room d = room \<and> sd_strokeId d = strokeId
      then Some (d\<lparr>sd_points := sd_points d @ [p]\<rparr> # ds)
      else map_option ((#) d) (updateOnePush room strokeId p ds))"

text \<open>With \<^verbatim>\<open>upsert: true\<close> a missing document is inserted, created at \<open>now\<close>.\<close>

definition mongoAppendPoint ::
  "database \<Rightarrow> jsstring \<Rightarrow> jsstring \<Rightarrow> point \<Rightarrow> nat \<Rightarrow> database" where
  "mongoAppendPoint db room strokeId pt now =
     (case updateOnePush room strokeId (castPoint pt now) (strokeDocs db) of
        Some docs \<Rightarrow> db\<lparr>strokeDocs := docs\<rparr>
      | None \<Rightarrow>
          db\<lparr>strokeDocs := strokeDocs db @
                [\<lparr>sd_id = nextId db, sd_room = room, sd_strokeId = strokeId,
                  sd_points = [castPoint pt now], sd_createdAt = now\<rparr>],
             nextId := Suc (nextId db)\<rparr>)"

text \<open>
  \<^verbatim>\<open>find({room})\<close> gives the room's documents and \<^verbatim>\<open>sort({createdAt: 1})\<close> orders them
  by creation time; documents created at the same time keep their insertion order.
\<close>

definition findRoom :: "database \<Rightarrow> jsstring \<Rightarrow> stroke_doc list" where
  "findRoom db room = filter (\<lambda>d. sd_room d = room) (strokeDocs db)"

definition sortCreatedAt :: "stroke_doc list \<Rightarrow> stroke_doc list" where
  "sortCreatedAt docs = sort_key sd_createdAt docs"

definition mongoLoadAllPoints :: "database \<Rightarrow> jsstring \<Rightarrow> point list" where
  "mongoLoadAllPoints db room = concat (map sd_points (sortCreatedAt (findRoom db room)))"

definition mongoClear :: "database \<Rightarrow> jsstring \<Rightarrow> database" where
  "mongoClear db room = db\<lparr>strokeDocs := filter (\<lambda>d. sd_room d \<noteq> room) (strokeDocs db)\<rparr>"

text \<open>\<^verbatim>\<open>deleteOne({_id})\<close> removes the first document with that id.\<close>

fun deleteOne :: "nat \<Rightarrow> stroke_doc list \<Rightarrow> stroke_doc list" where
  "deleteOne i [] = []"
| "deleteOne i (d # ds) = (if sd_id d = i then ds else d # deleteOne i ds)"

text \<open>
  \<^verbatim>\<open>findOne({room}).sort({createdAt: -1})\<close> is the first document of the reversed
  ascending order. The database keeps the ids of its documents distinct and below
  \<open>nextId\<close>.
\<close>

definition distinctIds :: "database \<Rightarrow> bool" where
  "distinctIds db \<longleftrightarrow>
     distinct (map sd_id (strokeDocs db)) \<and> list_all (\<lambda>d. sd_id d < nextId db) (strokeDocs db)"


definition mongoUndo :: "database \<Rightarrow> jsstring \<Rightarrow> database \<times> point list" where
  "mongoUndo db room =
     (case rev (sortCreatedAt (findRoom db room)) of
        [] \<Rightarrow> (db, [])
      | lastDoc # _ \<Rightarrow>
          (let db' = db\<lparr>strokeDocs := deleteOne (sd_id lastDoc) (strokeDocs db)\<rparr>
           in (db', mongoLoadAllPoints db' room)))"

section \<open>The event router\<close>

text \<open>
  The server: the backend flag, both stores, and the transport's room membership (which
  socket joined which room). A handler returns the new server and the messages it sent,
  each with the socket that receives it.
\<close>

type_synonym socket_id = nat

record server =
  useMongo :: bool
  files :: filesystem
  mongo :: database
  joined :: "(socket_id \<times> jsstring) list"

datatype event =
  History json
| Draw point
| Clear
| ResetWithHistory "point list"

text \<open>What a client may send with \<^verbatim>\<open>applySnapshot\<close>: any value, an array among them.\<close>

datatype js_value =
  VUndefined | VNull | VBoolean bool | VNumber int | VString jsstring | VObject
| VArray "point list"

definition isArray :: "js_value \<Rightarrow> bool" where
  "isArray v = (case v of VArray _ \<Rightarrow> True | _ \<Rightarrow> False)"

definition elements :: "js_value \<Rightarrow> point list" where
  "elements v = (case v of VArray ps \<Rightarrow> ps | _ \<Rightarrow> [])"

definition socketsIn :: "server \<Rightarrow> jsstring \<Rightarrow> socket_id list" where
  "socketsIn srv room = map fst (filter (\<lambda>(s, r). r = room) (joined srv))"

text \<open>\<^verbatim>\<open>socket.emit\<close>, \<^verbatim>\<open>socket.to(room).emit\<close> and \<^verbatim>\<open>io.to(room).emit\<close>.\<close>

definition socket_emit :: "socket_id \<Rightarrow> event \<Rightarrow> (socket_id \<times> event) list" where
  "socket_emit socket ev = [(socket, ev)]"

definition socket_to_emit ::
  "server \<Rightarrow> socket_id \<Rightarrow> jsstring \<Rightarrow> event \<Rightarrow> (socket_id \<times> event) list" where
  "socket_to_emit srv socket room ev =
     map (\<lambda>s. (s, ev)) (filter (\<lambda>s. s \<noteq> socket) (socketsIn srv room))"

definition io_to_emit :: "server \<Rightarrow> jsstring \<Rightarrow> event \<Rightarrow> (socket_id \<times> event) list" where
  "io_to_emit srv room ev = map (\<lambda>s. (s, ev)) (socketsIn srv room)"

text \<open>
  \<^verbatim>\<open>useMongo ? await mongoLoadAllPoints(room) : loadStrokes(room)\<close>: the log a room has in
  the store the server uses.
\<close>

definition loadAll :: "server \<Rightarrow> jsstring \<Rightarrow> json" where
  "loadAll srv room =
     (if useMongo srv then JArr (mongoLoadAllPoints (mongo srv) room)
      else loadStrokes (files srv) room)"

definition on_connection ::
  "server \<Rightarrow> socket_id \<Rightarrow> jsstring \<Rightarrow> server \<times> (socket_id \<times> event) list" where
  "on_connection srv socket rawRoom =
     (let room = sanitizeRoom rawRoom;
          srv' = srv\<lparr>joined := List.insert (socket, room) (joined srv)\<rparr>;
          history = loadAll srv' room
      in (srv', socket_emit socket (History history)))"

text \<open>\<^verbatim>\<open>strokeId || 'legacy'\<close>: a missing or empty id is falsy.\<close>

definition strokeIdOrLegacy :: "point \<Rightarrow> jsstring" where
  "strokeIdOrLegacy data =
     (case pt_strokeId data of
        None \<Rightarrow> js ''legacy''
      | Some sid \<Rightarrow> if sid = [] then js ''legacy'' else sid)"

text \<open>
  An exception of \<open>appendStroke\<close> ends the handler after the broadcast, with nothing
  written. In Node the rejected promise of the handler is then unhandled; what becomes of
  the process after that is not part of this function.
\<close>

definition on_draw ::
  "server \<Rightarrow> socket_id \<Rightarrow> jsstring \<Rightarrow> nat \<Rightarrow> point \<Rightarrow> server \<times> (socket_id \<times> event) list" where
  "on_draw srv socket room now data =
     (let sent = socket_to_emit srv socket room (Draw data) in
      if useMongo srv
      then (srv\<lparr>mongo := mongoAppendPoint (mongo srv) room (strokeIdOrLegacy data) data now\<rparr>, sent)
      else (case appendStroke (files srv) room data of
              Inl e \<Rightarrow> (srv, sent)
            | Inr fs' \<Rightarrow> (srv\<lparr>files := fs'\<rparr>, sent)))"

definition on_clear ::
  "server \<Rightarrow> socket_id \<Rightarrow> jsstring \<Rightarrow> server \<times> (socket_id \<times> event) list" where
  "on_clear srv socket room =
     (let sent = socket_to_emit srv socket room Clear in
      if useMongo srv then (srv\<lparr>mongo := mongoClear (mongo srv) room\<rparr>, sent)
      else (srv\<lparr>files := saveStrokes (files srv) room []\<rparr>, sent))"

definition on_undo ::
  "server \<Rightarrow> socket_id \<Rightarrow> jsstring \<Rightarrow> server \<times> (socket_id \<times> event) list" where
  "on_undo srv socket room =
     (let (srv', history) =
            (if useMongo srv
             then (let (db', h) = mongoUndo (mongo srv) room in (srv\<lparr>mongo := db'\<rparr>, h))
             else (let (fs', h) = removeLastStroke (files srv) room in (srv\<lparr>files := fs'\<rparr>, h)))
      in (srv', io_to_emit srv' room (ResetWithHistory history)))"

text \<open>
  The loop \<^verbatim>\<open>for (const pt of history) await mongoAppendPoint(room, 'snapshot', pt)\<close>;
  \<open>clock k\<close> is the clock's reading at the \<open>k\<close>-th append.
\<close>

fun appendAll ::
  "database \<Rightarrow> jsstring \<Rightarrow> (nat \<Rightarrow> nat) \<Rightarrow> nat \<Rightarrow> point list \<Rightarrow> database" where
  "appendAll db room clock k [] = db"
| "appendAll db room clock k (pt # history) =
     appendAll (mongoAppendPoint db room (js ''snapshot'') pt (clock k)) room clock (Suc k) history"

text \<open>The points of \<open>history\<close> as that loop stores them, the first at reading \<open>k\<close>.\<close>

definition stamped :: "(nat \<Rightarrow> nat) \<Rightarrow> nat \<Rightarrow> point list \<Rightarrow> point list" where
  "stamped clock k history = map (\<lambda>(i, pt). castPoint pt (clock i)) (enumerate k history)"

definition on_applySnapshot ::
  "server \<Rightarrow> socket_id \<Rightarrow> jsstring \<Rightarrow> (nat \<Rightarrow> nat) \<Rightarrow> js_value
     \<Rightarrow> server \<times> (socket_id \<times> event) list" where
  "on_applySnapshot srv socket room clock payload =
     (if \<not> isArray payload then (srv, [])
      else
        (let history = elements payload;
             srv' =
               (if useMongo srv
                then srv\<lparr>mongo := appendAll (mongoClear (mongo srv) room) room clock 0 history\<rparr>
                else srv\<lparr>files := saveStrokes (files srv) room history\<rparr>)
         in (srv', io_to_emit srv' room (ResetWithHistory history))))"

text \<open>
  The dispatch of socket.io: a connecting socket runs the connection handler, which binds
  \<open>room\<close> for the handlers it registers; a later event of that socket runs its handler
  with the room the socket joined. \<open>EmitDraw now data\<close> carries the clock's reading
  during the handler.
\<close>

datatype client_event =
  Connect jsstring
| EmitDraw nat point
| EmitClear
| EmitUndo
| EmitApplySnapshot "nat \<Rightarrow> nat" js_value

definition dispatch ::
  "server \<Rightarrow> socket_id \<Rightarrow> client_event \<Rightarrow> server \<times> (socket_id \<times> event) list" where
  "dispatch srv socket ev =
     (case ev of
        Connect rawRoom \<Rightarrow> on_connection srv socket rawRoom
      | _ \<Rightarrow>
          (case map_of (joined srv) socket of
             None \<Rightarrow> (srv, [])
           | Some room \<Rightarrow>
               (case ev of
                  EmitDraw now data \<Rightarrow> on_draw srv socket room now data
                | EmitClear \<Rightarrow> on_clear srv socket room
                | EmitUndo \<Rightarrow> on_undo srv socket room
                | EmitApplySnapshot clock payload \<Rightarrow> on_applySnapshot srv socket room clock payload
                | Connect rawRoom \<Rightarrow> (srv, []))))"

fun run ::
  "server \<Rightarrow> (socket_id \<times> client_event) list \<Rightarrow> server \<times> (socket_id \<times> event) list" where
  "run srv [] = (srv, [])"
| "run srv ((socket, ev) # evs) =
     (let (srv', sent) = dispatch srv socket ev;
          (srv'', sent') = run srv' evs
      in (srv'', sent @ sent'))"

text \<open>Every room a socket has joined came out of \<open>sanitizeRoom\<close>.\<close>

definition roomsSanitized :: "server \<Rightarrow> bool" where
  "roomsSanitized srv \<longleftrightarrow> list_all (\<lambda>(s, r). roomPattern r) (joined srv)"

section \<open>The two backends side by side\<close>

text \<open>
  What the handlers of \<open>draw\<close>, \<open>clear\<close> and \<open>undo\<close> do to the store of a room, on either
  backend: \<open>appendStroke\<close> or \<open>mongoAppendPoint\<close> under \<^verbatim>\<open>strokeId || 'legacy'\<close>,
  \<open>saveStrokes\<close> with the empty array or \<open>mongoClear\<close>, \<open>removeLastStroke\<close> or
  \<open>mongoUndo\<close>. \<open>Append now pt\<close> carries the clock's reading at the append.
\<close>

datatype store_op = Append nat point | ClearLog | UndoLast

definition fileStep :: "jsstring \<Rightarrow> filesystem \<Rightarrow> store_op \<Rightarrow> filesystem" where
  "fileStep room fs op =
     (case op of
        Append now pt \<Rightarrow> (case appendStroke fs room pt of Inl e \<Rightarrow> fs | Inr fs' \<Rightarrow> fs')
      | ClearLog \<Rightarrow> saveStrokes fs room []
      | UndoLast \<Rightarrow> fst (removeLastStroke fs room))"

definition mongoStep :: "jsstring \<Rightarrow> database \<Rightarrow> store_op \<Rightarrow> database" where
  "mongoStep room db op =
     (case op of
        Append now pt \<Rightarrow> mongoAppendPoint db room (strokeIdOrLegacy pt) pt now
      | ClearLog \<Rightarrow> mongoClear db room
      | UndoLast \<Rightarrow> fst (mongoUndo db room))"

definition fileRun :: "jsstring \<Rightarrow> filesystem \<Rightarrow> store_op list \<Rightarrow> filesystem" where
  "fileRun room fs ops = foldl (fileStep room) fs ops"

definition mongoRun :: "jsstring \<Rightarrow> database \<Rightarrow> store_op list \<Rightarrow> database" where
  "mongoRun room db ops = foldl (mongoStep room) db ops"

text \<open>
  What the canvas replays of a point: x, y, type, color and width. The two backends
  differ in the other two fields, since \<open>castPoint\<close> drops one and adds the other.
\<close>

definition drawn :: "point \<Rightarrow> point" where
  "drawn pt = pt\<lparr>pt_strokeId := None, pt_order := None\<rparr>"

text \<open>
  Strokes that arrive one after the other: a point of type \<open>start\<close> comes with a
  strokeId the room does not store yet, at a time later than the creation of every stroke
  the room stores; any other point comes with the strokeId of the room's most recently
  created stroke.
\<close>

definition newestDoc :: "database \<Rightarrow> jsstring \<Rightarrow> stroke_doc option" where
  "newestDoc db room =
     (case rev (sortCreatedAt (findRoom db room)) of [] \<Rightarrow> None | d # _ \<Rightarrow> Some d)"

definition admissible :: "jsstring \<Rightarrow> database \<Rightarrow> store_op \<Rightarrow> bool" where
  "admissible room db op =
     (case op of
        Append now pt \<Rightarrow>
          (if pt_type pt = js ''start''
           then strokeIdOrLegacy pt \<notin> set (map sd_strokeId (findRoom db room))
                \<and> list_all (\<lambda>d. sd_createdAt d < now) (findRoom db room)
           else (case newestDoc db room of
                   None \<Rightarrow> False
                 | Some d \<Rightarrow> sd_strokeId d = strokeIdOrLegacy pt))
      | _ \<Rightarrow> True)"

fun contiguous :: "jsstring \<Rightarrow> database \<Rightarrow> store_op list \<Rightarrow> bool" where
  "contiguous room db [] = True"
| "contiguous room db (op # ops) =
     (admissible room db op \<and> contiguous room (mongoStep room db op) ops)"

text \<open>
  The relation the two stores keep under such strokes: the file's log and the documents
  of the room, in insertion order, hold the same drawn points; the documents were
  created at strictly increasing times under distinct strokeIds, and each holds one
  \<open>start\<close> point, its first.
\<close>

definition oneStroke :: "stroke_doc \<Rightarrow> bool" where
  "oneStroke d =
     (case sd_points d of
        [] \<Rightarrow> False
      | s # rest \<Rightarrow> pt_type s = js ''start'' \<and> list_all (\<lambda>q. pt_type q \<noteq> js ''start'') rest)"

definition inStep :: "jsstring \<Rightarrow> filesystem \<Rightarrow> database \<Rightarrow> bool" where
  "inStep room fs db \<longleftrightarrow>
     (case loadStrokes fs room of
        JArr L \<Rightarrow> map drawn L = map drawn (concat (map sd_points (findRoom db room)))
      | JObj r n d t \<Rightarrow> False)
     \<and> sorted_wrt (<) (map sd_createdAt (findRoom db room))
     \<and> distinct (map sd_strokeId (findRoom db room))
     \<and> list_all oneStroke (findRoom db room)
     \<and> distinctIds db
     \<and> fileForRoom room \<notin> set (unwritable fs)"

section \<open>The client's points\<close>

text \<open>
  What the canvas emits: \<^verbatim>\<open>{x, y, type: 'start', color, width, strokeId}\<close> when a stroke
  begins and the same with \<^verbatim>\<open>type: 'draw'\<close> while it goes on.
\<close>

definition startPoint :: "int \<Rightarrow> int \<Rightarrow> jsstring \<Rightarrow> int \<Rightarrow> jsstring \<Rightarrow> point" where
  "startPoint x y color width sid =
     \<lparr>pt_x = x, pt_y = y, pt_type = js ''start'', pt_color = color, pt_width = width,
      pt_strokeId = Some sid, pt_order = None\<rparr>"

definition drawPoint :: "int \<Rightarrow> int \<Rightarrow> jsstring \<Rightarrow> int \<Rightarrow> jsstring \<Rightarrow> point" where
  "drawPoint x y color width sid =
     \<lparr>pt_x = x, pt_y = y, pt_type = js ''draw'', pt_color = color, pt_width = width,
      pt_strokeId = Some sid, pt_order = None\<rparr>"

text \<open>
  An empty disk, an empty database, and a server on either backend with nobody connected.
\<close>

definition emptyDisk :: filesystem where
  "emptyDisk = \<lparr>entries = [], unwritable = []\<rparr>"

definition emptyDatabase :: database where
  "emptyDatabase = \<lparr>strokeDocs = [], nextId = 0\<rparr>"


text \<open>A disk that holds one room's log, and a log of two strokes.\<close>

definition diskWith :: "jsstring \<Rightarrow> point list \<Rightarrow> filesystem" where
  "diskWith room strokes =
     \<lparr>entries = [(fileForRoom room, Text (Json (JArr strokes)))], unwritable = []\<rparr>"

definition twoStrokes :: "point list" where
  "twoStrokes =
     [startPoint 0 0 (js ''#000000'') 5 (js ''s1''), drawPoint 5 5 (js ''#000000'') 5 (js ''s1''),
      startPoint 1 1 (js ''#ff0000'') 3 (js ''s2''), drawPoint 2 2 (js ''#ff0000'') 3 (js ''s2''),
      drawPoint 3 3 (js ''#ff0000'') 3 (js ''s2'')]"

text \<open>
  A server on the file backend whose room \<open>alpha\<close> holds the two strokes and has one
  socket in it.
\<close>

definition studio :: server where
  "studio = \<lparr>useMongo = False, files = diskWith (js ''alpha'') twoStrokes,
             mongo = emptyDatabase, joined = [(1, js ''alpha'')]\<rparr>"

text \<open>
  A disk with faults: the log of \<open>alpha\<close> and the snapshot \<open>v1\<close> do not parse, the
  snapshot \<open>v2\<close> cannot be read, and neither the log nor the snapshot \<open>v3\<close> can be
  written.
\<close>

definition faultyDisk :: filesystem where
  "faultyDisk =
     \<lparr>entries = [(fileForRoom (js ''alpha''), Text Garbage),
                 (snapshotFile (js ''alpha'') (js ''v1''), Text Garbage),
                 (snapshotFile (js ''alpha'') (js ''v2''), Unreadable)],
      unwritable = [fileForRoom (js ''alpha''), snapshotFile (js ''alpha'') (js ''v3'')]\<rparr>"

text \<open>
  A server on the database backend with two sockets in \<open>alpha\<close> and one stroke stored
  for the room \<open>beta\<close>.
\<close>

definition gallery :: server where
  "gallery =
     \<lparr>useMongo = True, files = emptyDisk,
      mongo = \<lparr>strokeDocs =
                 [\<lparr>sd_id = 0, sd_room = js ''beta'', sd_strokeId = js ''s0'',
                   sd_points = [castPoint (startPoint 9 9 (js ''#00ff00'') 2 (js ''s0'')) 1],
                   sd_createdAt = 1\<rparr>],
               nextId = 1\<rparr>,
      joined = [(1, js ''alpha''), (2, js ''alpha'')]\<rparr>"

text \<open>
  Two users drawing at once in one room: the strokes \<open>a\<close> and \<open>b\<close> interleave.
\<close>

definition interleaved :: "store_op list" where
  "interleaved =
     [Append 1 (startPoint 0 0 (js ''#000000'') 5 (js ''a'')),
      Append 2 (startPoint 9 9 (js ''#ff0000'') 3 (js ''b'')),
      Append 3 (drawPoint 1 1 (js ''#000000'') 5 (js ''a'')),
      Append 4 (drawPoint 8 8 (js ''#ff0000'') 3 (js ''b''))]"

text \<open>One user drawing the two strokes of \<open>twoStrokes\<close>, then undoing the second.\<close>

definition oneAfterTheOther :: "store_op list" where
  "oneAfterTheOther =
     [Append 1 (startPoint 0 0 (js ''#000000'') 5 (js ''s1'')),
      Append 2 (drawPoint 5 5 (js ''#000000'') 5 (js ''s1'')),
      Append 3 (startPoint 1 1 (js ''#ff0000'') 3 (js ''s2'')),
      Append 4 (drawPoint 2 2 (js ''#ff0000'') 3 (js ''s2'')),
      Append 5 (drawPoint 3 3 (js ''#ff0000'') 3 (js ''s2'')),
      UndoLast]"

section \<open>Room sanitization\<close>

lemma js_simps:
  "js [] = []" "js (c # s) = of_char c # js s"
  by (simp_all add: js_def)

lemma matchUpTo_Nil_iff: "matchUpTo n s = [] \<longleftrightarrow> length s \<le> n \<and> list_all isWordChar s"
  by (induction n s rule: matchUpTo.induct) auto

lemma isWordChar_words:
  "isWordChar c \<longleftrightarrow> isLetter c \<or> isDigit c \<or> [c] = js ''_'' \<or> [c] = js ''-''"
  unfolding isWordChar_def isLetter_def isDigit_def js_simps
  by (simp) presburger

lemma roomPattern_validRoomKey: "roomPattern v \<longleftrightarrow> validRoomKey v"
proof -
  have "list_all isWordChar v
      = list_all (\<lambda>c. isLetter c \<or> isDigit c \<or> [c] = js ''_'' \<or> [c] = js ''-'') v"
  proof -
    have "isWordChar = (\<lambda>c. isLetter c \<or> isDigit c \<or> [c] = js ''_'' \<or> [c] = js ''-'')"
      by (rule ext) (rule isWordChar_words)
    then show ?thesis by simp
  qed
  then show ?thesis
    unfolding roomPattern_def validRoomKey_def matchUpTo_Nil_iff
    by (cases v) auto
qed

lemma wordChar_not_space: "isWordChar c \<Longrightarrow> \<not> isWhiteSpace c"
  by (auto simp: isWordChar_def isWhiteSpace_def)

lemma trim_id: "list_all (\<lambda>c. \<not> isWhiteSpace c) s \<Longrightarrow> trim s = s"
proof -
  assume a: "list_all (\<lambda>c. \<not> isWhiteSpace c) s"
  have d: "dropWhile isWhiteSpace t = t" if "list_all (\<lambda>c. \<not> isWhiteSpace c) t" for t
    using that by (cases t) auto
  from a have "list_all (\<lambda>c. \<not> isWhiteSpace c) (rev s)"
    by (simp add: list_all_iff)
  with a show ?thesis by (simp add: trim_def d)
qed

lemma trim_roomPattern: "roomPattern v \<Longrightarrow> trim v = v"
  unfolding roomPattern_def matchUpTo_Nil_iff
  by (rule trim_id) (auto simp: list_all_iff wordChar_not_space)

lemma lobby_pattern: "roomPattern (js ''lobby'')"
  by (simp add: roomPattern_def matchUpTo_Nil_iff js_simps isWordChar_def)

lemma sanitizeRoom_pattern: "roomPattern (sanitizeRoom s)"
  by (simp add: sanitizeRoom_def Let_def lobby_pattern)

text \<open>
  Claim C6. Room sanitization is total and idempotent: the sanitizer trims its input, maps
  an empty result to \<open>lobby\<close>, maps a result that is not 1 to 64 letters, digits,
  underscores and hyphens to \<open>lobby\<close>, and returns a valid trimmed result (so also a
  valid input) unchanged; sanitizing twice is sanitizing once, and every output is a
  valid room key (\<open>lobby\<close> is one).
\<close>

theorem sanitizeRoom_total_idempotent:
  "(trim input = [] \<longrightarrow> sanitizeRoom input = js ''lobby'')
   \<and> (\<not> validRoomKey (trim input) \<longrightarrow> sanitizeRoom input = js ''lobby'')
   \<and> (validRoomKey (trim input) \<longrightarrow> sanitizeRoom input = trim input)
   \<and> (validRoomKey input \<longrightarrow> sanitizeRoom input = input)
   \<and> sanitizeRoom (sanitizeRoom input) = sanitizeRoom input
   \<and> validRoomKey (sanitizeRoom input)"
proof -
  have empty: "trim input = [] \<longrightarrow> sanitizeRoom input = js ''lobby''"
    by (simp add: sanitizeRoom_def)
  have bad: "\<not> validRoomKey (trim input) \<longrightarrow> sanitizeRoom input = js ''lobby''"
    by (simp add: sanitizeRoom_def Let_def roomPattern_validRoomKey)
  have good: "validRoomKey (trim input) \<longrightarrow> sanitizeRoom input = trim input"
    by (auto simp: sanitizeRoom_def Let_def roomPattern_validRoomKey validRoomKey_def)
  have same: "validRoomKey input \<longrightarrow> sanitizeRoom input = input"
  proof
    assume v: "validRoomKey input"
    then have "trim input = input"
      by (simp add: trim_roomPattern roomPattern_validRoomKey)
    with v good show "sanitizeRoom input = input" by simp
  qed
  have out: "validRoomKey (sanitizeRoom input)"
    using sanitizeRoom_pattern [of input] by (simp add: roomPattern_validRoomKey)
  have idem: "sanitizeRoom (sanitizeRoom input) = sanitizeRoom input"
  proof -
    have "trim (sanitizeRoom input) = sanitizeRoom input"
      by (rule trim_roomPattern) (rule sanitizeRoom_pattern)
    then show ?thesis
      using sanitizeRoom_pattern [of input]
      by (simp add: sanitizeRoom_def [of "sanitizeRoom input"] Let_def roomPattern_def)
  qed
  from empty bad good same idem out show ?thesis by blast
qed

lemmas eval_strings = js_simps trim_def isWhiteSpace_def isWordChar_def validRoomKey_def
  isLetter_def isDigit_def

theorem sanitizeRoom_witness:
  "trim (js ''   '') = [] \<and> sanitizeRoom (js ''   '') = js ''lobby''
   \<and> \<not> validRoomKey (trim (js ''../etc'')) \<and> sanitizeRoom (js ''../etc'') = js ''lobby''
   \<and> \<not> validRoomKey (trim (js ''a b'')) \<and> sanitizeRoom (js ''a b'') = js ''lobby''
   \<and> validRoomKey (trim (js '' room-1 '')) \<and> sanitizeRoom (js '' room-1 '') = js ''room-1''
   \<and> validRoomKey (js ''alpha'') \<and> sanitizeRoom (js ''alpha'') = js ''alpha''"
proof -
  have 1: "trim (js ''   '') = []" by (simp add: eval_strings)
  have 2: "\<not> validRoomKey (trim (js ''../etc''))" by (simp add: eval_strings)
  have 3: "\<not> validRoomKey (trim (js ''a b''))" by (simp add: eval_strings)
  have 4: "validRoomKey (trim (js '' room-1 ''))" by (simp add: eval_strings)
  have t4: "trim (js '' room-1 '') = js ''room-1''" by (simp add: eval_strings)
  have 5: "validRoomKey (js ''alpha'')" by (simp add: eval_strings)
  show ?thesis
    using 1 2 3 4 5 t4
      sanitizeRoom_total_idempotent [of "js ''   ''"]
      sanitizeRoom_total_idempotent [of "js ''../etc''"]
      sanitizeRoom_total_idempotent [of "js ''a b''"]
      sanitizeRoom_total_idempotent [of "js '' room-1 ''"]
      sanitizeRoom_total_idempotent [of "js ''alpha''"]
    by simp
qed

section \<open>File naming\<close>

lemma splitSlash_no_slash: "47 \<notin> set s \<Longrightarrow> splitSlash s = [s]"
  by (induction s) auto

lemma path_join_plain:
  assumes "47 \<notin> set s" and "s \<noteq> []" and "s \<noteq> js ''.''" and "s \<noteq> js ''..''"
  shows "path_join dir s = dir @ [s]"
  using assms by (simp add: path_join_def splitSlash_no_slash normalizeSegment_def)

lemma dataDir_eq: "dataDir = [js ''data'']"
  by (simp add: dataDir_def path_join_def js_simps normalizeSegment_def)

lemma snapshotsDir_eq: "snapshotsDir = [js ''snapshots'']"
  by (simp add: snapshotsDir_def path_join_def js_simps normalizeSegment_def)

lemma wordChar_not_slash: "isWordChar c \<Longrightarrow> c \<noteq> 47"
  by (auto simp: isWordChar_def)

lemma roomPattern_chars: "roomPattern room \<Longrightarrow> \<forall>c\<in>set room. isWordChar c"
  by (simp add: roomPattern_def matchUpTo_Nil_iff list_all_iff)

lemma replaceUnsafe_chars: "\<forall>c\<in>set (replaceUnsafe name). isWordChar c"
  by (auto simp: replaceUnsafe_def isWordChar_def)

lemma json_suffix_plain:
  assumes "\<forall>c\<in>set stem. isWordChar c"
  shows "path_join dir (stem @ js ''.json'') = dir @ [stem @ js ''.json'']"
proof (rule path_join_plain)
  show "47 \<notin> set (stem @ js ''.json'')"
    using assms wordChar_not_slash by (auto simp: js_simps)
  show "stem @ js ''.json'' \<noteq> []" by (simp add: js_simps)
  have "5 \<le> length (stem @ js ''.json'')" by (simp add: js_simps)
  then show "stem @ js ''.json'' \<noteq> js ''.''" "stem @ js ''.json'' \<noteq> js ''..''"
    by (auto simp: js_simps)
qed

lemma fileForRoom_eq:
  "roomPattern room \<Longrightarrow> fileForRoom room = [js ''data'', room @ js ''.json'']"
  using json_suffix_plain [of room dataDir]
  by (simp add: fileForRoom_def dataDir_eq roomPattern_chars)

lemma snapshotFile_eq:
  assumes "roomPattern room"
  shows "snapshotFile room name
           = [js ''snapshots'', room @ js ''__'' @ replaceUnsafe name @ js ''.json'']"
proof -
  have "\<forall>c\<in>set (room @ js ''__'' @ replaceUnsafe name). isWordChar c"
    using roomPattern_chars [OF assms] replaceUnsafe_chars [of name]
    by (auto simp: js_simps isWordChar_def)
  from json_suffix_plain [OF this, of snapshotsDir]
  show ?thesis by (simp add: snapshotFile_def snapshotsDir_eq)
qed

lemma replaceUnsafe_id: "\<forall>c\<in>set name. isWordChar c \<Longrightarrow> replaceUnsafe name = name"
  by (simp add: replaceUnsafe_def map_idI)

lemma log_not_snapshot:
  "roomPattern r \<Longrightarrow> roomPattern r' \<Longrightarrow> fileForRoom r \<noteq> snapshotFile r' name"
  by (simp add: fileForRoom_eq snapshotFile_eq js_simps)

text \<open>
  Claim C7, as amended. Two distinct valid rooms have distinct log files. Within one
  room, two snapshot names share a file exactly when they agree after
  \<open>replaceUnsafe\<close>, so names made of letters, digits, underscores and hyphens have
  distinct files. For every raw room and raw snapshot name, the log file is the single
  segment \<open>room.json\<close> directly inside \<open>data\<close> and the snapshot file a single
  segment directly inside \<open>snapshots\<close>.
\<close>

theorem file_naming_injective_confined:
  "(validRoomKey r1 \<and> validRoomKey r2 \<and> r1 \<noteq> r2 \<longrightarrow> fileForRoom r1 \<noteq> fileForRoom r2)
   \<and> (validRoomKey r \<longrightarrow>
        (snapshotFile r n1 = snapshotFile r n2 \<longleftrightarrow> replaceUnsafe n1 = replaceUnsafe n2))
   \<and> (validRoomKey r \<and> list_all isWordChar n1 \<and> list_all isWordChar n2 \<and> n1 \<noteq> n2
        \<longrightarrow> snapshotFile r n1 \<noteq> snapshotFile r n2)
   \<and> fileForRoom (sanitizeRoom rawRoom) = dataDir @ [sanitizeRoom rawRoom @ js ''.json'']
   \<and> snapshotFile (sanitizeRoom rawRoom) (sanitizeName isoNow rawName)
        = snapshotsDir @ [sanitizeRoom rawRoom @ js ''__''
                           @ replaceUnsafe (sanitizeName isoNow rawName) @ js ''.json'']
   \<and> dataDir = [js ''data''] \<and> snapshotsDir = [js ''snapshots'']"
proof -
  have logs: "validRoomKey r1 \<and> validRoomKey r2 \<and> r1 \<noteq> r2 \<longrightarrow> fileForRoom r1 \<noteq> fileForRoom r2"
    by (simp add: fileForRoom_eq roomPattern_validRoomKey [symmetric])
  have snaps: "validRoomKey r \<longrightarrow>
        (snapshotFile r n1 = snapshotFile r n2 \<longleftrightarrow> replaceUnsafe n1 = replaceUnsafe n2)"
    by (simp add: snapshotFile_eq roomPattern_validRoomKey [symmetric])
  have plain: "validRoomKey r \<and> list_all isWordChar n1 \<and> list_all isWordChar n2 \<and> n1 \<noteq> n2
        \<longrightarrow> snapshotFile r n1 \<noteq> snapshotFile r n2"
    using snaps by (auto simp: replaceUnsafe_id list_all_iff)
  have inside1: "fileForRoom (sanitizeRoom rawRoom) = dataDir @ [sanitizeRoom rawRoom @ js ''.json'']"
    by (simp add: fileForRoom_eq sanitizeRoom_pattern dataDir_eq)
  have inside2: "snapshotFile (sanitizeRoom rawRoom) (sanitizeName isoNow rawName)
        = snapshotsDir @ [sanitizeRoom rawRoom @ js ''__''
                           @ replaceUnsafe (sanitizeName isoNow rawName) @ js ''.json'']"
    by (simp add: snapshotFile_eq sanitizeRoom_pattern snapshotsDir_eq)
  from logs snaps plain inside1 inside2 dataDir_eq snapshotsDir_eq show ?thesis by blast
qed

lemmas eval_names = eval_strings sanitizeName_def replaceUnsafe_def

theorem file_naming_witness:
  "validRoomKey (js ''alpha'') \<and> validRoomKey (js ''beta'') \<and> js ''alpha'' \<noteq> js ''beta''
   \<and> fileForRoom (js ''alpha'') \<noteq> fileForRoom (js ''beta'')
   \<and> list_all isWordChar (js ''v1'') \<and> list_all isWordChar (js ''v2'') \<and> js ''v1'' \<noteq> js ''v2''
   \<and> snapshotFile (js ''alpha'') (js ''v1'') \<noteq> snapshotFile (js ''alpha'') (js ''v2'')
   \<and> replaceUnsafe (js ''a b'') = replaceUnsafe (js ''a_b'')
   \<and> snapshotFile (js ''alpha'') (js ''a b'') = snapshotFile (js ''alpha'') (js ''a_b'')
   \<and> fileForRoom (sanitizeRoom (js ''../etc'')) = [js ''data'', js ''lobby.json'']
   \<and> snapshotFile (sanitizeRoom (js ''alpha'')) (sanitizeName [] (js ''../../x''))
        = [js ''snapshots'', js ''alpha________x.json'']"
proof -
  have v: "validRoomKey (js ''alpha'')" "validRoomKey (js ''beta'')" "js ''alpha'' \<noteq> js ''beta''"
    by (simp_all add: eval_strings)
  have w: "list_all isWordChar (js ''v1'')" "list_all isWordChar (js ''v2'')" "js ''v1'' \<noteq> js ''v2''"
    by (simp_all add: eval_strings)
  have u: "replaceUnsafe (js ''a b'') = replaceUnsafe (js ''a_b'')"
    by (simp add: eval_names)
  have s1: "sanitizeRoom (js ''../etc'') = js ''lobby''"
    by (simp add: sanitizeRoom_def roomPattern_validRoomKey eval_strings)
  have s2: "sanitizeRoom (js ''alpha'') = js ''alpha''"
    by (simp add: sanitizeRoom_def roomPattern_validRoomKey eval_strings)
  have s3: "replaceUnsafe (sanitizeName [] (js ''../../x'')) = js ''______x''"
    by (simp add: eval_names)
  note T1 = file_naming_injective_confined [of "js ''alpha''" "js ''beta''" "js ''alpha''"
        "js ''v1''" "js ''v2''" "js ''../etc''" "[]" "js ''../../x''"]
  note T2 = file_naming_injective_confined [of "js ''alpha''" "js ''beta''" "js ''alpha''"
        "js ''a b''" "js ''a_b''" "js ''alpha''" "[]" "js ''../../x''"]
  have a: "fileForRoom (js ''alpha'') \<noteq> fileForRoom (js ''beta'')"
    using T1 v by blast
  have b: "snapshotFile (js ''alpha'') (js ''v1'') \<noteq> snapshotFile (js ''alpha'') (js ''v2'')"
    using T1 v w by blast
  have c: "snapshotFile (js ''alpha'') (js ''a b'') = snapshotFile (js ''alpha'') (js ''a_b'')"
    using T2 v u by blast
  have "fileForRoom (sanitizeRoom (js ''../etc''))
          = dataDir @ [sanitizeRoom (js ''../etc'') @ js ''.json''] \<and> dataDir = [js ''data'']"
    using T1 by blast
  then have d: "fileForRoom (sanitizeRoom (js ''../etc'')) = [js ''data'', js ''lobby.json'']"
    using s1 by (simp add: js_simps)
  have "snapshotFile (sanitizeRoom (js ''alpha'')) (sanitizeName [] (js ''../../x''))
          = snapshotsDir @ [sanitizeRoom (js ''alpha'') @ js ''__''
              @ replaceUnsafe (sanitizeName [] (js ''../../x'')) @ js ''.json'']
        \<and> snapshotsDir = [js ''snapshots'']"
    using T2 by blast
  then have e: "snapshotFile (sanitizeRoom (js ''alpha'')) (sanitizeName [] (js ''../../x''))
        = [js ''snapshots'', js ''alpha________x.json'']"
    using s2 s3 by (simp add: js_simps)
  from v w u a b c d e show ?thesis by blast
qed

text \<open>
  Two pairs of a room and a sanitized name that differ and yet share one snapshot file:
  a space in a name becomes an underscore, and the separator \<open>__\<close> can be read as part
  of the room or of the name.
\<close>

theorem snapshot_names_collide:
  "sanitizeName [] (js ''a b'') = js ''a b'' \<and> sanitizeName [] (js ''a_b'') = js ''a_b''
   \<and> validRoomKey (js ''r'') \<and> (js ''r'', js ''a b'') \<noteq> (js ''r'', js ''a_b'')
   \<and> snapshotFile (js ''r'') (js ''a b'') = snapshotFile (js ''r'') (js ''a_b'')
   \<and> validRoomKey (js ''a_'') \<and> validRoomKey (js ''a'')
   \<and> sanitizeName [] (js ''b'') = js ''b'' \<and> sanitizeName [] (js ''_b'') = js ''_b''
   \<and> (js ''a_'', js ''b'') \<noteq> (js ''a'', js ''_b'')
   \<and> snapshotFile (js ''a_'') (js ''b'') = snapshotFile (js ''a'') (js ''_b'')"
  by (simp add: eval_names snapshotFile_eq roomPattern_validRoomKey)

section \<open>The file backend: log operations\<close>

lemma loadStrokes_cases:
  "loadStrokes fs room =
     (case map_of (entries fs) (fileForRoom room) of
        Some (Text (Json v)) \<Rightarrow> v
      | _ \<Rightarrow> JArr [])"
  by (simp add: loadStrokes_def existsSync_def readFileSync_def JSON_parse_def
      split: option.splits stored_file.splits content.splits)

lemma saveStrokes_cases:
  "saveStrokes fs room strokes =
     (if fileForRoom room \<in> set (unwritable fs) then fs
      else fs\<lparr>entries := AList.update (fileForRoom room) (Text (Json (JArr strokes))) (entries fs)\<rparr>)"
  by (simp add: saveStrokes_def writeFileSync_def JSON_stringify_def)

lemma load_after_save:
  "fileForRoom room \<notin> set (unwritable fs)
     \<Longrightarrow> loadStrokes (saveStrokes fs room strokes) room = JArr strokes"
  by (simp add: loadStrokes_cases saveStrokes_cases update_conv')

lemma load_after_failed_save:
  "fileForRoom room \<in> set (unwritable fs)
     \<Longrightarrow> loadStrokes (saveStrokes fs room strokes) room = loadStrokes fs room"
  by (simp add: saveStrokes_cases)

lemma unwritable_saveStrokes [simp]: "unwritable (saveStrokes fs room strokes) = unwritable fs"
  by (simp add: saveStrokes_cases)

lemma saveStrokes_other_file:
  "p \<noteq> fileForRoom room \<Longrightarrow> map_of (entries (saveStrokes fs room strokes)) p = map_of (entries fs) p"
  by (simp add: saveStrokes_cases update_conv')

text \<open>What the backward scan finds.\<close>

lemma scanBack_None_iff:
  "scanBack strokes n = None \<longleftrightarrow> (\<forall>i<n. pt_type (strokes ! i) \<noteq> js ''start'')"
  by (induction n) (auto simp: less_Suc_eq)

lemma scanBack_Some:
  "scanBack strokes n = Some i \<Longrightarrow>
     i < n \<and> pt_type (strokes ! i) = js ''start''
     \<and> (\<forall>j. i < j \<and> j < n \<longrightarrow> pt_type (strokes ! j) \<noteq> js ''start'')"
proof (induction n)
  case 0
  then show ?case by simp
next
  case (Suc n)
  show ?case
  proof (cases "pt_type (strokes ! n) = js ''start''")
    case True
    with Suc.prems show ?thesis by auto
  next
    case False
    with Suc.prems have "scanBack strokes n = Some i" by simp
    from Suc.IH [OF this] False show ?thesis
      by (auto simp: less_Suc_eq)
  qed
qed

lemma scanBack_last_start:
  assumes "pt_type s = js ''start''"
    and "list_all (\<lambda>q. pt_type q \<noteq> js ''start'') post"
  shows "scanBack (pre @ s # post) (length (pre @ s # post)) = Some (length pre)"
proof -
  let ?L = "pre @ s # post"
  have no: "\<forall>j. length pre < j \<and> j < length ?L \<longrightarrow> pt_type (?L ! j) \<noteq> js ''start''"
  proof (intro allI impI)
    fix j assume j: "length pre < j \<and> j < length ?L"
    then have "?L ! j = post ! (j - length pre - 1)"
      by (simp add: nth_append nth_Cons')
    moreover from j have "j - length pre - 1 < length post" by auto
    ultimately show "pt_type (?L ! j) \<noteq> js ''start''"
      using assms(2) by (simp add: list_all_length)
  qed
  have here: "pt_type (?L ! length pre) = js ''start''"
    using assms(1) by simp
  show ?thesis
  proof (cases "scanBack ?L (length ?L)")
    case None
    then have "\<forall>i<length ?L. pt_type (?L ! i) \<noteq> js ''start''"
      by (simp only: scanBack_None_iff)
    moreover have "length pre < length ?L" by simp
    ultimately have "pt_type (?L ! length pre) \<noteq> js ''start''" by blast
    with here show ?thesis by blast
  next
    case (Some i)
    from scanBack_Some [OF Some] have i: "i < length ?L" "pt_type (?L ! i) = js ''start''"
      and after: "\<forall>j. i < j \<and> j < length ?L \<longrightarrow> pt_type (?L ! j) \<noteq> js ''start''"
      by auto
    have "\<not> length pre < i" using no i by blast
    moreover have "\<not> i < length pre" using after here by auto
    ultimately show ?thesis using Some by simp
  qed
qed

lemma removeLastStroke_result:
  assumes "loadStrokes fs room = JArr L"
  shows "removeLastStroke fs room =
     (case scanBack L (length L) of
        Some i \<Rightarrow> (saveStrokes fs room (take i L), take i L)
      | None \<Rightarrow> (saveStrokes fs room [], []))"
  using assms by (simp add: removeLastStroke_def Let_def split: option.splits)

lemma removeLastStroke_saves:
  assumes "loadStrokes fs room = JArr L"
  shows "fst (removeLastStroke fs room) = saveStrokes fs room (snd (removeLastStroke fs room))"
  by (simp add: removeLastStroke_result [OF assms] split: option.splits)

lemma removeLastStroke_prefix:
  assumes "loadStrokes fs room = JArr L"
  shows "prefix (snd (removeLastStroke fs room)) L"
  by (simp add: removeLastStroke_result [OF assms] take_is_prefix split: option.splits)

text \<open>
  Claim C1. On a room whose log is \<open>L\<close>, undo finds the last point of type \<open>start\<close>,
  removes it and everything after it and returns what is left; with no such point it
  returns the empty sequence. The returned sequence is what it writes, so it is the
  room's log afterwards wherever the log file can be written.
\<close>

theorem removeLastStroke_removes_last_stroke:
  assumes "loadStrokes fs room = JArr L"
  shows "(\<forall>pre s post.
            L = pre @ s # post \<and> pt_type s = js ''start''
              \<and> list_all (\<lambda>q. pt_type q \<noteq> js ''start'') post
            \<longrightarrow> snd (removeLastStroke fs room) = pre)
       \<and> (list_all (\<lambda>q. pt_type q \<noteq> js ''start'') L \<longrightarrow> snd (removeLastStroke fs room) = [])
       \<and> fst (removeLastStroke fs room) = saveStrokes fs room (snd (removeLastStroke fs room))
       \<and> (fileForRoom room \<notin> set (unwritable fs) \<longrightarrow>
            loadStrokes (fst (removeLastStroke fs room)) room = JArr (snd (removeLastStroke fs room)))"
proof (intro conjI allI impI)
  fix pre s post
  assume "L = pre @ s # post \<and> pt_type s = js ''start''
            \<and> list_all (\<lambda>q. pt_type q \<noteq> js ''start'') post"
  then have L: "L = pre @ s # post" and "scanBack L (length L) = Some (length pre)"
    using scanBack_last_start [of s post pre] by auto
  then show "snd (removeLastStroke fs room) = pre"
    by (simp add: removeLastStroke_result [OF assms])
next
  assume "list_all (\<lambda>q. pt_type q \<noteq> js ''start'') L"
  then have "scanBack L (length L) = None"
    by (simp add: scanBack_None_iff list_all_length)
  then show "snd (removeLastStroke fs room) = []"
    by (simp add: removeLastStroke_result [OF assms])
next
  show saves: "fst (removeLastStroke fs room) = saveStrokes fs room (snd (removeLastStroke fs room))"
    by (rule removeLastStroke_saves [OF assms])
  assume "fileForRoom room \<notin> set (unwritable fs)"
  then show "loadStrokes (fst (removeLastStroke fs room)) room = JArr (snd (removeLastStroke fs room))"
    by (simp add: saves load_after_save)
qed


lemma load_diskWith: "loadStrokes (diskWith room strokes) room = JArr strokes"
  by (simp add: loadStrokes_cases diskWith_def)

lemma unwritable_diskWith [simp]: "unwritable (diskWith room strokes) = []"
  by (simp add: diskWith_def)

lemmas eval_points = startPoint_def drawPoint_def js_simps

theorem removeLastStroke_witness:
  "loadStrokes (diskWith (js ''alpha'') twoStrokes) (js ''alpha'') = JArr twoStrokes
   \<and> snd (removeLastStroke (diskWith (js ''alpha'') twoStrokes) (js ''alpha''))
       = [startPoint 0 0 (js ''#000000'') 5 (js ''s1''), drawPoint 5 5 (js ''#000000'') 5 (js ''s1'')]
   \<and> loadStrokes (fst (removeLastStroke (diskWith (js ''alpha'') twoStrokes) (js ''alpha'')))
         (js ''alpha'')
       = JArr [startPoint 0 0 (js ''#000000'') 5 (js ''s1''),
               drawPoint 5 5 (js ''#000000'') 5 (js ''s1'')]
   \<and> snd (removeLastStroke
             (diskWith (js ''alpha'') [drawPoint 5 5 (js ''#000000'') 5 (js ''s1'')]) (js ''alpha''))
       = []"
proof -
  let ?fs = "diskWith (js ''alpha'') twoStrokes"
  let ?pre = "[startPoint 0 0 (js ''#000000'') 5 (js ''s1''),
               drawPoint 5 5 (js ''#000000'') 5 (js ''s1'')]"
  let ?s = "startPoint 1 1 (js ''#ff0000'') 3 (js ''s2'')"
  let ?post = "[drawPoint 2 2 (js ''#ff0000'') 3 (js ''s2''),
                drawPoint 3 3 (js ''#ff0000'') 3 (js ''s2'')]"
  let ?d = "[drawPoint 5 5 (js ''#000000'') 5 (js ''s1'')]"
  have h: "loadStrokes ?fs (js ''alpha'') = JArr twoStrokes"
    by (rule load_diskWith)
  note T = removeLastStroke_removes_last_stroke [OF h]
  have split: "twoStrokes = ?pre @ ?s # ?post \<and> pt_type ?s = js ''start''
      \<and> list_all (\<lambda>q. pt_type q \<noteq> js ''start'') ?post"
    by (simp add: twoStrokes_def eval_points)
  from T [THEN conjunct1, rule_format, OF split]
  have r: "snd (removeLastStroke ?fs (js ''alpha'')) = ?pre" .
  have "fileForRoom (js ''alpha'') \<notin> set (unwritable ?fs)" by simp
  with T have "loadStrokes (fst (removeLastStroke ?fs (js ''alpha''))) (js ''alpha'')
      = JArr (snd (removeLastStroke ?fs (js ''alpha'')))"
    by blast
  with r have p: "loadStrokes (fst (removeLastStroke ?fs (js ''alpha''))) (js ''alpha'') = JArr ?pre"
    by simp
  have h2: "loadStrokes (diskWith (js ''alpha'') ?d) (js ''alpha'') = JArr ?d"
    by (rule load_diskWith)
  have "list_all (\<lambda>q. pt_type q \<noteq> js ''start'') ?d"
    by (simp add: eval_points)
  with removeLastStroke_removes_last_stroke [OF h2]
  have e: "snd (removeLastStroke (diskWith (js ''alpha'') ?d) (js ''alpha'')) = []"
    by blast
  from h r p e show ?thesis by blast
qed

text \<open>
  Claim C9. On a room whose log is \<open>L\<close>, what undo returns is a prefix of \<open>L\<close>, and so is
  the log it leaves behind (the returned prefix wherever the log file can be written).
  On an empty log undo returns the empty sequence and leaves the log empty; undo has no
  failing branch.
\<close>

theorem removeLastStroke_prefix_of_log:
  assumes "loadStrokes fs room = JArr L"
  shows "prefix (snd (removeLastStroke fs room)) L
       \<and> (\<exists>P. loadStrokes (fst (removeLastStroke fs room)) room = JArr P \<and> prefix P L)
       \<and> (fileForRoom room \<notin> set (unwritable fs) \<longrightarrow>
            loadStrokes (fst (removeLastStroke fs room)) room = JArr (snd (removeLastStroke fs room)))
       \<and> (L = [] \<longrightarrow> snd (removeLastStroke fs room) = []
                      \<and> loadStrokes (fst (removeLastStroke fs room)) room = JArr [])"
proof -
  let ?fs' = "fst (removeLastStroke fs room)" and ?h = "snd (removeLastStroke fs room)"
  have pre: "prefix ?h L" by (rule removeLastStroke_prefix [OF assms])
  have saves: "?fs' = saveStrokes fs room ?h" by (rule removeLastStroke_saves [OF assms])
  have written: "fileForRoom room \<notin> set (unwritable fs) \<longrightarrow> loadStrokes ?fs' room = JArr ?h"
    by (simp add: saves load_after_save)
  have kept: "fileForRoom room \<in> set (unwritable fs) \<longrightarrow> loadStrokes ?fs' room = JArr L"
    by (simp add: saves load_after_failed_save assms)
  have left: "\<exists>P. loadStrokes ?fs' room = JArr P \<and> prefix P L"
    using written kept pre by (cases "fileForRoom room \<in> set (unwritable fs)") auto
  have empty: "L = [] \<longrightarrow> ?h = [] \<and> loadStrokes ?fs' room = JArr []"
    using pre left by auto
  from pre left written empty show ?thesis by blast
qed

theorem removeLastStroke_prefix_witness:
  "loadStrokes emptyDisk (js ''alpha'') = JArr []
   \<and> snd (removeLastStroke emptyDisk (js ''alpha'')) = []
   \<and> loadStrokes (fst (removeLastStroke emptyDisk (js ''alpha''))) (js ''alpha'') = JArr []
   \<and> fileForRoom (js ''alpha'') \<notin> set (unwritable (diskWith (js ''alpha'') twoStrokes))
   \<and> prefix (snd (removeLastStroke (diskWith (js ''alpha'') twoStrokes) (js ''alpha''))) twoStrokes
   \<and> loadStrokes (fst (removeLastStroke (diskWith (js ''alpha'') twoStrokes) (js ''alpha'')))
         (js ''alpha'')
       = JArr (snd (removeLastStroke (diskWith (js ''alpha'') twoStrokes) (js ''alpha'')))"
proof -
  have h0: "loadStrokes emptyDisk (js ''alpha'') = JArr []"
    by (simp add: loadStrokes_cases emptyDisk_def)
  have h1: "loadStrokes (diskWith (js ''alpha'') twoStrokes) (js ''alpha'') = JArr twoStrokes"
    by (rule load_diskWith)
  have w: "fileForRoom (js ''alpha'') \<notin> set (unwritable (diskWith (js ''alpha'') twoStrokes))"
    by simp
  from h0 w removeLastStroke_prefix_of_log [OF h0] removeLastStroke_prefix_of_log [OF h1]
  show ?thesis by blast
qed

section \<open>Snapshots of the file backend\<close>

lemma appendStroke_cases:
  "appendStroke fs room p =
     (case loadStrokes fs room of
        JArr strokes \<Rightarrow> Inr (saveStrokes fs room (strokes @ [p]))
      | JObj r n d t \<Rightarrow> Inl TypeError)"
  by (simp add: appendStroke_def)

lemma appendStroke_other_file:
  "appendStroke fs room p = Inr fs' \<Longrightarrow> q \<noteq> fileForRoom room
     \<Longrightarrow> map_of (entries fs') q = map_of (entries fs) q"
  by (auto simp: appendStroke_cases saveStrokes_other_file split: json.splits)

lemma removeLastStroke_other_file:
  "q \<noteq> fileForRoom room
     \<Longrightarrow> map_of (entries (fst (removeLastStroke fs room))) q = map_of (entries fs) q"
  by (simp add: removeLastStroke_def Let_def saveStrokes_other_file
      split: json.splits option.splits)

text \<open>No handler of a socket touches a file other than the log of the socket's room.\<close>

lemma on_draw_other_file:
  "q \<noteq> fileForRoom room
     \<Longrightarrow> map_of (entries (files (fst (on_draw srv socket room now data)))) q
         = map_of (entries (files srv)) q"
  by (auto simp: on_draw_def Let_def appendStroke_other_file split: sum.splits)

lemma on_clear_other_file:
  "q \<noteq> fileForRoom room
     \<Longrightarrow> map_of (entries (files (fst (on_clear srv socket room)))) q = map_of (entries (files srv)) q"
  by (simp add: on_clear_def Let_def saveStrokes_other_file)

lemma on_undo_other_file:
  "q \<noteq> fileForRoom room
     \<Longrightarrow> map_of (entries (files (fst (on_undo srv socket room)))) q = map_of (entries (files srv)) q"
  using removeLastStroke_other_file [of q room "files srv"]
  by (simp add: on_undo_def Let_def split_beta)

lemma on_applySnapshot_other_file:
  "q \<noteq> fileForRoom room
     \<Longrightarrow> map_of (entries (files (fst (on_applySnapshot srv socket room clock payload)))) q
         = map_of (entries (files srv)) q"
  by (simp add: on_applySnapshot_def Let_def saveStrokes_other_file)

lemma joined_on_draw [simp]: "joined (fst (on_draw srv socket room now data)) = joined srv"
  by (simp add: on_draw_def Let_def split: sum.splits)

lemma joined_on_clear [simp]: "joined (fst (on_clear srv socket room)) = joined srv"
  by (simp add: on_clear_def Let_def)

lemma joined_on_undo [simp]: "joined (fst (on_undo srv socket room)) = joined srv"
  by (simp add: on_undo_def Let_def split_beta)

lemma joined_on_applySnapshot [simp]:
  "joined (fst (on_applySnapshot srv socket room clock payload)) = joined srv"
  by (simp add: on_applySnapshot_def Let_def)

lemma roomsSanitized_lookup:
  "roomsSanitized srv \<Longrightarrow> map_of (joined srv) socket = Some room \<Longrightarrow> roomPattern room"
  by (auto simp: roomsSanitized_def list_all_iff dest: map_of_SomeD)

lemma dispatch_roomsSanitized:
  "roomsSanitized srv \<Longrightarrow> roomsSanitized (fst (dispatch srv socket ev))"
  by (cases ev)
     (auto simp: dispatch_def roomsSanitized_def on_connection_def Let_def sanitizeRoom_pattern
           list_all_iff split: option.splits)

lemma dispatch_keeps_snapshot_file:
  assumes "roomsSanitized srv" and "roomPattern R"
  shows "map_of (entries (files (fst (dispatch srv socket ev)))) (snapshotFile R name)
           = map_of (entries (files srv)) (snapshotFile R name)"
proof (cases ev)
  case (Connect rawRoom)
  then show ?thesis by (simp add: dispatch_def on_connection_def Let_def)
next
  case (EmitDraw now data)
  show ?thesis
  proof (cases "map_of (joined srv) socket")
    case None
    with EmitDraw show ?thesis by (simp add: dispatch_def)
  next
    case (Some room)
    with assms have "snapshotFile R name \<noteq> fileForRoom room"
      using log_not_snapshot [of room R name] roomsSanitized_lookup by fastforce
    with EmitDraw Some show ?thesis by (simp add: dispatch_def on_draw_other_file)
  qed
next
  case EmitClear
  show ?thesis
  proof (cases "map_of (joined srv) socket")
    case None
    with EmitClear show ?thesis by (simp add: dispatch_def)
  next
    case (Some room)
    with assms have "snapshotFile R name \<noteq> fileForRoom room"
      using log_not_snapshot [of room R name] roomsSanitized_lookup by fastforce
    with EmitClear Some show ?thesis by (simp add: dispatch_def on_clear_other_file)
  qed
next
  case EmitUndo
  show ?thesis
  proof (cases "map_of (joined srv) socket")
    case None
    with EmitUndo show ?thesis by (simp add: dispatch_def)
  next
    case (Some room)
    with assms have "snapshotFile R name \<noteq> fileForRoom room"
      using log_not_snapshot [of room R name] roomsSanitized_lookup by fastforce
    with EmitUndo Some show ?thesis by (simp add: dispatch_def on_undo_other_file)
  qed
next
  case (EmitApplySnapshot clock payload)
  show ?thesis
  proof (cases "map_of (joined srv) socket")
    case None
    with EmitApplySnapshot show ?thesis by (simp add: dispatch_def)
  next
    case (Some room)
    with assms have "snapshotFile R name \<noteq> fileForRoom room"
      using log_not_snapshot [of room R name] roomsSanitized_lookup by fastforce
    with EmitApplySnapshot Some show ?thesis
      by (simp add: dispatch_def on_applySnapshot_other_file)
  qed
qed

lemma run_keeps_snapshot_file:
  assumes "roomPattern R"
  shows "roomsSanitized srv \<Longrightarrow>
         map_of (entries (files (fst (run srv evs)))) (snapshotFile R name)
           = map_of (entries (files srv)) (snapshotFile R name)"
proof (induction evs arbitrary: srv)
  case Nil
  then show ?case by simp
next
  case (Cons e evs)
  obtain socket ev where e: "e = (socket, ev)" by (cases e)
  let ?srv' = "fst (dispatch srv socket ev)"
  have "roomsSanitized ?srv'" using Cons.prems by (rule dispatch_roomsSanitized)
  from Cons.IH [OF this] dispatch_keeps_snapshot_file [OF Cons.prems assms, of socket ev name]
  show ?case by (simp add: e split_beta Let_def)
qed

lemma loadSnapshotFile_cases:
  "loadSnapshotFile fs room name =
     (case map_of (entries fs) (snapshotFile room name) of
        None \<Rightarrow> Inr None
      | Some Unreadable \<Rightarrow> Inl IOError
      | Some (Text Garbage) \<Rightarrow> Inl SyntaxError
      | Some (Text (Json (JArr ps))) \<Rightarrow> Inr (Some (JArr []))
      | Some (Text (Json (JObj r n d t))) \<Rightarrow> Inr (Some d))"
  by (simp add: loadSnapshotFile_def Let_def existsSync_def readFileSync_def JSON_parse_def
      split: option.splits stored_file.splits content.splits json.splits)

lemma saveSnapshotFile_cases:
  "saveSnapshotFile fs room name isoNow now =
     (let f = snapshotFile room (if name = [] then isoNow else name) in
      if f \<in> set (unwritable fs) then Inl IOError
      else Inr (fs\<lparr>entries := AList.update f
                    (Text (Json (JObj room name (loadStrokes fs room) now))) (entries fs)\<rparr>,
                (room, name, f)))"
  by (simp add: saveSnapshotFile_def Let_def writeFileSync_def JSON_stringify_def)

lemma load_after_saveSnapshot:
  assumes "name \<noteq> []" and "saveSnapshotFile fs R name isoNow now = Inr (fs1, saved)"
  shows "map_of (entries fs1) (snapshotFile R name)
           = Some (Text (Json (JObj R name (loadStrokes fs R) now)))"
  using assms by (auto simp: saveSnapshotFile_cases Let_def update_conv' split: if_splits)

text \<open>
  Claim C3, as amended. On the file backend, for a valid room \<open>R\<close> and a non-empty name, a
  snapshot that was saved is loaded back as exactly the log \<open>R\<close> had when it was saved,
  right away and after any run of connections, draws, clears, undos and snapshot
  applications by sockets in sanitized rooms.
\<close>

theorem snapshot_round_trip:
  assumes "\<not> useMongo srv"
    and "list_all (\<lambda>(s, r). validRoomKey r) (joined srv)"
    and "validRoomKey R" and "name \<noteq> []"
    and "saveSnapshotFile (files srv) R name isoNow now = Inr (fs1, saved)"
  shows "loadSnapshotFile fs1 R name = Inr (Some (loadAll srv R))
       \<and> loadSnapshotFile (files (fst (run (srv\<lparr>files := fs1\<rparr>) evs))) R name
           = Inr (Some (loadAll srv R))"
proof -
  have R: "roomPattern R" using assms(3) by (simp add: roomPattern_validRoomKey)
  have inv: "roomsSanitized (srv\<lparr>files := fs1\<rparr>)"
    using assms(2) by (simp add: roomsSanitized_def roomPattern_validRoomKey)
  have stored: "map_of (entries fs1) (snapshotFile R name)
           = Some (Text (Json (JObj R name (loadStrokes (files srv) R) now)))"
    using assms(4,5) by (rule load_after_saveSnapshot)
  have log: "loadAll srv R = loadStrokes (files srv) R"
    using assms(1) by (simp add: loadAll_def)
  have now: "loadSnapshotFile fs1 R name = Inr (Some (loadAll srv R))"
    by (simp add: loadSnapshotFile_cases stored log)
  have "map_of (entries (files (fst (run (srv\<lparr>files := fs1\<rparr>) evs)))) (snapshotFile R name)
          = map_of (entries fs1) (snapshotFile R name)"
    using run_keeps_snapshot_file [OF R inv, of evs name] by simp
  then have later: "loadSnapshotFile (files (fst (run (srv\<lparr>files := fs1\<rparr>) evs))) R name
           = Inr (Some (loadAll srv R))"
    by (simp add: loadSnapshotFile_cases stored log)
  from now later show ?thesis by blast
qed


lemma alpha_pattern: "roomPattern (js ''alpha'')"
  by (simp add: roomPattern_validRoomKey eval_strings)

theorem snapshot_round_trip_witness:
  "\<not> useMongo studio
   \<and> list_all (\<lambda>(s, r). validRoomKey r) (joined studio)
   \<and> validRoomKey (js ''alpha'') \<and> js ''v1'' \<noteq> []
   \<and> loadAll studio (js ''alpha'') = JArr twoStrokes
   \<and> (\<exists>fs1 saved.
         saveSnapshotFile (files studio) (js ''alpha'') (js ''v1'') (js ''2026-11-03T10:48:00.000Z'') 7
           = Inr (fs1, saved)
         \<and> loadSnapshotFile fs1 (js ''alpha'') (js ''v1'') = Inr (Some (JArr twoStrokes))
         \<and> loadSnapshotFile
              (files (fst (run (studio\<lparr>files := fs1\<rparr>)
                 [(1, EmitUndo), (2, Connect (js ''alpha'')), (2, EmitClear)])))
              (js ''alpha'') (js ''v1'') = Inr (Some (JArr twoStrokes)))"
proof -
  let ?iso = "js ''2026-11-03T10:48:00.000Z''"
  let ?evs = "[(1, EmitUndo), (2, Connect (js ''alpha'')), (2, EmitClear)]"
  have m: "\<not> useMongo studio" by (simp add: studio_def)
  have j: "list_all (\<lambda>(s, r). validRoomKey r) (joined studio)"
    by (simp add: studio_def eval_strings)
  have v: "validRoomKey (js ''alpha'')" by (simp add: eval_strings)
  have n: "js ''v1'' \<noteq> []" by (simp add: js_simps)
  have l: "loadAll studio (js ''alpha'') = JArr twoStrokes"
    by (simp add: loadAll_def studio_def load_diskWith)
  obtain fs1 saved where
    s: "saveSnapshotFile (files studio) (js ''alpha'') (js ''v1'') ?iso 7 = Inr (fs1, saved)"
    by (simp add: saveSnapshotFile_cases Let_def studio_def)
  from snapshot_round_trip [OF m j v n s, of ?evs] l
  have "loadSnapshotFile fs1 (js ''alpha'') (js ''v1'') = Inr (Some (JArr twoStrokes))
      \<and> loadSnapshotFile (files (fst (run (studio\<lparr>files := fs1\<rparr>) ?evs)))
           (js ''alpha'') (js ''v1'') = Inr (Some (JArr twoStrokes))"
    by simp
  with s m j v n l show ?thesis by blast
qed

text \<open>
  With the empty name the snapshot is filed under the clock's ISO string, and loading the
  empty name finds nothing. Through the REST handlers a blank name does the same: saving
  and loading read the clock at different times.
\<close>

theorem snapshot_round_trip_empty_name:
  "(\<exists>fs1 saved.
      saveSnapshotFile (files studio) (js ''alpha'') [] (js ''2026-11-03T10:48:00.000Z'') 7
        = Inr (fs1, saved)
      \<and> loadSnapshotFile fs1 (js ''alpha'') [] = Inr None)
   \<and> (\<exists>fs1 saved.
      post_snapshots (files studio) (js ''alpha'') (js '' '') (js ''2026-11-03T10:48:00.000Z'') 7
        = (fs1, Ok_saved saved)
      \<and> get_snapshot fs1 (js ''alpha'') (js '' '') (js ''2026-11-03T10:48:09.000Z'') = NotFound_404)"
proof -
  let ?iso = "js ''2026-11-03T10:48:00.000Z''" and ?iso' = "js ''2026-11-03T10:48:09.000Z''"
  have name: "sanitizeName ?iso (js '' '') = ?iso" "sanitizeName ?iso' (js '' '') = ?iso'"
    by (simp_all add: sanitizeName_def trim_def isWhiteSpace_def js_simps)
  have room: "sanitizeRoom (js ''alpha'') = js ''alpha''"
    by (simp add: sanitizeRoom_def roomPattern_validRoomKey eval_strings)
  have f1: "snapshotFile (js ''alpha'') ?iso \<noteq> snapshotFile (js ''alpha'') []"
    unfolding snapshotFile_eq [OF alpha_pattern]
    by (simp add: replaceUnsafe_def js_simps)
  have f2: "snapshotFile (js ''alpha'') ?iso \<noteq> snapshotFile (js ''alpha'') ?iso'"
    unfolding snapshotFile_eq [OF alpha_pattern]
    by (simp add: replaceUnsafe_def js_simps isWordChar_def)
  have ne: "?iso \<noteq> []" by (simp add: js_simps)
  have uw: "unwritable (files studio) = []" by (simp add: studio_def)
  have store: "loadSnapshotFile
      (files studio\<lparr>entries := AList.update (snapshotFile (js ''alpha'') ?iso) f
                       (entries (files studio))\<rparr>) (js ''alpha'') n = Inr None"
    if "snapshotFile (js ''alpha'') ?iso \<noteq> snapshotFile (js ''alpha'') n" for f n
    using that log_not_snapshot [OF alpha_pattern alpha_pattern, of n]
    by (simp add: loadSnapshotFile_cases update_conv' studio_def diskWith_def)
  have a: "\<exists>fs1 saved.
      saveSnapshotFile (files studio) (js ''alpha'') [] ?iso 7 = Inr (fs1, saved)
      \<and> loadSnapshotFile fs1 (js ''alpha'') [] = Inr None"
    using store [OF f1] by (simp add: saveSnapshotFile_cases Let_def uw)
  have b: "\<exists>fs1 saved.
      post_snapshots (files studio) (js ''alpha'') (js '' '') ?iso 7 = (fs1, Ok_saved saved)
      \<and> get_snapshot fs1 (js ''alpha'') (js '' '') ?iso' = NotFound_404"
    using store [OF f2] ne
    by (simp add: post_snapshots_def get_snapshot_def name room saveSnapshotFile_cases Let_def uw)
  from a b show ?thesis by blast
qed

section \<open>Storage faults\<close>

lemma loadStrokes_fault:
  "map_of (entries fs) (fileForRoom room) = None
     \<or> map_of (entries fs) (fileForRoom room) = Some Unreadable
     \<or> map_of (entries fs) (fileForRoom room) = Some (Text Garbage)
   \<Longrightarrow> loadStrokes fs room = JArr []"
  by (auto simp: loadStrokes_cases)

lemma saveStrokes_fault:
  "fileForRoom room \<in> set (unwritable fs) \<Longrightarrow> saveStrokes fs room strokes = fs"
  by (simp add: saveStrokes_cases)

lemma appendStroke_log:
  "loadStrokes fs room = JArr L \<Longrightarrow> appendStroke fs room p = Inr (saveStrokes fs room (L @ [p]))"
  by (simp add: appendStroke_cases)

lemma removeLastStroke_fault:
  "fileForRoom room \<in> set (unwritable fs) \<Longrightarrow> fst (removeLastStroke fs room) = fs"
  by (simp add: removeLastStroke_def Let_def saveStrokes_fault split: json.splits option.splits)

lemma readMetas_fault:
  assumes "f \<in> set names"
    and "map_of (entries fs) (path_join snapshotsDir f) = Some Unreadable
         \<or> map_of (entries fs) (path_join snapshotsDir f) = Some (Text Garbage)"
  shows "\<exists>e. readMetas fs names = Inl e"
  using assms(1)
proof (induction names)
  case Nil
  then show ?case by simp
next
  case (Cons g names)
  show ?case
  proof (cases "g = f")
    case True
    with assms(2) show ?thesis
      by (auto simp: readFileSync_def JSON_parse_def)
  next
    case False
    with Cons obtain e where "readMetas fs names = Inl e" by auto
    then show ?thesis
      by (simp split: sum.splits)
  qed
qed

lemma listSnapshotsFile_fault:
  assumes "f \<in> set (readdirSync fs snapshotsDir)"
    and "prefix (room @ js ''__'') f" and "suffix (js ''.json'') f"
    and "map_of (entries fs) (path_join snapshotsDir f) = Some Unreadable
         \<or> map_of (entries fs) (path_join snapshotsDir f) = Some (Text Garbage)"
  shows "\<exists>e. listSnapshotsFile fs room = Inl e"
  unfolding listSnapshotsFile_def Let_def
  by (rule readMetas_fault [OF _ assms(4)]) (simp add: assms)

text \<open>
  Claim C8, as amended. On the file backend the log operations catch every storage fault:
  a log that is missing, unreadable or unparseable loads as the empty sequence, a failed
  write leaves the disk as it was, and append on a log never raises, so no fault reaches
  a socket's handler. The snapshot operations catch nothing: a missing snapshot is
  reported as not found, an unreadable or unparseable snapshot file and a failed write
  raise, and the REST handler answers 500 with the error.
\<close>

theorem storage_faults_file_backend:
  "(map_of (entries fs) (fileForRoom room) = None
      \<or> map_of (entries fs) (fileForRoom room) = Some Unreadable
      \<or> map_of (entries fs) (fileForRoom room) = Some (Text Garbage)
     \<longrightarrow> loadStrokes fs room = JArr [])
   \<and> (fileForRoom room \<in> set (unwritable fs) \<longrightarrow>
        saveStrokes fs room strokes = fs \<and> fst (removeLastStroke fs room) = fs)
   \<and> (loadStrokes fs room = JArr L \<longrightarrow>
        appendStroke fs room p = Inr (saveStrokes fs room (L @ [p])))
   \<and> (map_of (entries fs) (snapshotFile room name) = None \<longrightarrow>
        loadSnapshotFile fs room name = Inr None)
   \<and> (map_of (entries fs) (snapshotFile room name) = Some Unreadable \<longrightarrow>
        loadSnapshotFile fs room name = Inl IOError)
   \<and> (map_of (entries fs) (snapshotFile room name) = Some (Text Garbage) \<longrightarrow>
        loadSnapshotFile fs room name = Inl SyntaxError)
   \<and> (snapshotFile room (if name = [] then isoNow else name) \<in> set (unwritable fs) \<longrightarrow>
        saveSnapshotFile fs room name isoNow now = Inl IOError)
   \<and> (f \<in> set (readdirSync fs snapshotsDir)
        \<and> prefix (room @ js ''__'') f \<and> suffix (js ''.json'') f
        \<and> (map_of (entries fs) (path_join snapshotsDir f) = Some Unreadable
             \<or> map_of (entries fs) (path_join snapshotsDir f) = Some (Text Garbage))
       \<longrightarrow> (\<exists>e. listSnapshotsFile fs room = Inl e))
   \<and> (listSnapshotsFile fs (sanitizeRoom rawRoom) = Inl e \<longrightarrow>
        get_snapshots fs rawRoom = Error_500 e)
   \<and> (saveSnapshotFile fs (sanitizeRoom rawRoom) (sanitizeName isoNow rawName) isoNow now = Inl e
       \<longrightarrow> post_snapshots fs rawRoom rawName isoNow now = (fs, Error_500 e))
   \<and> (loadSnapshotFile fs (sanitizeRoom rawRoom) (sanitizeName isoNow rawName) = Inl e \<longrightarrow>
        get_snapshot fs rawRoom rawName isoNow = Error_500 e)
   \<and> (loadSnapshotFile fs (sanitizeRoom rawRoom) (sanitizeName isoNow rawName) = Inr None \<longrightarrow>
        get_snapshot fs rawRoom rawName isoNow = NotFound_404)"
proof -
  have ld: "map_of (entries fs) (fileForRoom room) = None
      \<or> map_of (entries fs) (fileForRoom room) = Some Unreadable
      \<or> map_of (entries fs) (fileForRoom room) = Some (Text Garbage)
     \<longrightarrow> loadStrokes fs room = JArr []"
    using loadStrokes_fault by blast
  have wr: "fileForRoom room \<in> set (unwritable fs) \<longrightarrow>
        saveStrokes fs room strokes = fs \<and> fst (removeLastStroke fs room) = fs"
    by (simp add: saveStrokes_fault removeLastStroke_fault)
  have app: "loadStrokes fs room = JArr L \<longrightarrow>
        appendStroke fs room p = Inr (saveStrokes fs room (L @ [p]))"
    by (simp add: appendStroke_log)
  have snap1: "map_of (entries fs) (snapshotFile room name) = None \<longrightarrow>
        loadSnapshotFile fs room name = Inr None"
    by (simp add: loadSnapshotFile_cases)
  have snap2: "map_of (entries fs) (snapshotFile room name) = Some Unreadable \<longrightarrow>
        loadSnapshotFile fs room name = Inl IOError"
    by (simp add: loadSnapshotFile_cases)
  have snap3: "map_of (entries fs) (snapshotFile room name) = Some (Text Garbage) \<longrightarrow>
        loadSnapshotFile fs room name = Inl SyntaxError"
    by (simp add: loadSnapshotFile_cases)
  have sv: "snapshotFile room (if name = [] then isoNow else name) \<in> set (unwritable fs) \<longrightarrow>
        saveSnapshotFile fs room name isoNow now = Inl IOError"
    by (simp add: saveSnapshotFile_cases Let_def)
  have ls: "f \<in> set (readdirSync fs snapshotsDir)
        \<and> prefix (room @ js ''__'') f \<and> suffix (js ''.json'') f
        \<and> (map_of (entries fs) (path_join snapshotsDir f) = Some Unreadable
             \<or> map_of (entries fs) (path_join snapshotsDir f) = Some (Text Garbage))
       \<longrightarrow> (\<exists>e. listSnapshotsFile fs room = Inl e)"
    using listSnapshotsFile_fault [of f fs room] by blast
  have rest1: "listSnapshotsFile fs (sanitizeRoom rawRoom) = Inl e \<longrightarrow>
        get_snapshots fs rawRoom = Error_500 e"
    by (simp add: get_snapshots_def)
  have rest2: "saveSnapshotFile fs (sanitizeRoom rawRoom) (sanitizeName isoNow rawName) isoNow now
        = Inl e \<longrightarrow> post_snapshots fs rawRoom rawName isoNow now = (fs, Error_500 e)"
    by (simp add: post_snapshots_def)
  have rest3: "loadSnapshotFile fs (sanitizeRoom rawRoom) (sanitizeName isoNow rawName) = Inl e \<longrightarrow>
        get_snapshot fs rawRoom rawName isoNow = Error_500 e"
    by (simp add: get_snapshot_def)
  have rest4: "loadSnapshotFile fs (sanitizeRoom rawRoom) (sanitizeName isoNow rawName) = Inr None
       \<longrightarrow> get_snapshot fs rawRoom rawName isoNow = NotFound_404"
    by (simp add: get_snapshot_def)
  from ld wr app snap1 snap2 snap3 sv ls rest1 rest2 rest3 rest4
  show ?thesis by blast
qed


lemma faultyDisk_paths:
  "fileForRoom (js ''alpha'') = [js ''data'', js ''alpha.json'']"
  "snapshotFile (js ''alpha'') (js ''v1'') = [js ''snapshots'', js ''alpha__v1.json'']"
  "snapshotFile (js ''alpha'') (js ''v2'') = [js ''snapshots'', js ''alpha__v2.json'']"
  "snapshotFile (js ''alpha'') (js ''v3'') = [js ''snapshots'', js ''alpha__v3.json'']"
  "snapshotFile (js ''alpha'') (js ''v9'') = [js ''snapshots'', js ''alpha__v9.json'']"
  unfolding fileForRoom_eq [OF alpha_pattern] snapshotFile_eq [OF alpha_pattern]
  by (simp_all add: replaceUnsafe_def isWordChar_def js_simps)

lemma faultyDisk_lookup:
  "map_of (entries faultyDisk) (fileForRoom (js ''alpha'')) = Some (Text Garbage)"
  "map_of (entries faultyDisk) (snapshotFile (js ''alpha'') (js ''v1'')) = Some (Text Garbage)"
  "map_of (entries faultyDisk) (snapshotFile (js ''alpha'') (js ''v2'')) = Some Unreadable"
  "map_of (entries faultyDisk) (snapshotFile (js ''alpha'') (js ''v9'')) = None"
  "fileForRoom (js ''alpha'') \<in> set (unwritable faultyDisk)"
  "snapshotFile (js ''alpha'') (js ''v3'') \<in> set (unwritable faultyDisk)"
  unfolding faultyDisk_def faultyDisk_paths
  by (simp_all add: js_simps)

lemma faultyDisk_dir:
  "js ''alpha__v1.json'' \<in> set (readdirSync faultyDisk snapshotsDir)"
  "prefix (js ''alpha'' @ js ''__'') (js ''alpha__v1.json'')"
  "suffix (js ''.json'') (js ''alpha__v1.json'')"
  "path_join snapshotsDir (js ''alpha__v1.json'') = snapshotFile (js ''alpha'') (js ''v1'')"
proof -
  show "js ''alpha__v1.json'' \<in> set (readdirSync faultyDisk snapshotsDir)"
    unfolding faultyDisk_def faultyDisk_paths readdirSync_def snapshotsDir_eq
    by (simp add: js_simps)
  show "prefix (js ''alpha'' @ js ''__'') (js ''alpha__v1.json'')"
    by (simp add: js_simps)
  show "suffix (js ''.json'') (js ''alpha__v1.json'')"
    by (simp add: js_simps suffix_def)
  show "path_join snapshotsDir (js ''alpha__v1.json'') = snapshotFile (js ''alpha'') (js ''v1'')"
    unfolding faultyDisk_paths snapshotsDir_eq
    by (simp add: path_join_def normalizeSegment_def js_simps)
qed

lemma alpha_sanitized: "sanitizeRoom (js ''alpha'') = js ''alpha''"
  by (simp add: sanitizeRoom_def roomPattern_validRoomKey eval_strings)

lemma plain_names:
  "sanitizeName isoNow (js ''v1'') = js ''v1''"
  "sanitizeName isoNow (js ''v3'') = js ''v3''"
  "sanitizeName isoNow (js ''v9'') = js ''v9''"
  by (simp_all add: eval_names)

theorem storage_faults_witness:
  "map_of (entries faultyDisk) (fileForRoom (js ''alpha'')) = Some (Text Garbage)
   \<and> loadStrokes faultyDisk (js ''alpha'') = JArr []
   \<and> fileForRoom (js ''alpha'') \<in> set (unwritable faultyDisk)
   \<and> saveStrokes faultyDisk (js ''alpha'') twoStrokes = faultyDisk
   \<and> fst (removeLastStroke faultyDisk (js ''alpha'')) = faultyDisk
   \<and> appendStroke faultyDisk (js ''alpha'') (drawPoint 5 5 (js ''#000000'') 5 (js ''s1''))
       = Inr faultyDisk
   \<and> map_of (entries faultyDisk) (snapshotFile (js ''alpha'') (js ''v9'')) = None
   \<and> loadSnapshotFile faultyDisk (js ''alpha'') (js ''v9'') = Inr None
   \<and> map_of (entries faultyDisk) (snapshotFile (js ''alpha'') (js ''v2'')) = Some Unreadable
   \<and> loadSnapshotFile faultyDisk (js ''alpha'') (js ''v2'') = Inl IOError
   \<and> map_of (entries faultyDisk) (snapshotFile (js ''alpha'') (js ''v1'')) = Some (Text Garbage)
   \<and> loadSnapshotFile faultyDisk (js ''alpha'') (js ''v1'') = Inl SyntaxError
   \<and> snapshotFile (js ''alpha'') (js ''v3'') \<in> set (unwritable faultyDisk)
   \<and> saveSnapshotFile faultyDisk (js ''alpha'') (js ''v3'') [] 7 = Inl IOError
   \<and> js ''alpha__v1.json'' \<in> set (readdirSync faultyDisk snapshotsDir)
   \<and> (\<exists>e. listSnapshotsFile faultyDisk (js ''alpha'') = Inl e)
   \<and> (\<exists>e. get_snapshots faultyDisk (js ''alpha'') = Error_500 e)
   \<and> post_snapshots faultyDisk (js ''alpha'') (js ''v3'') [] 7 = (faultyDisk, Error_500 IOError)
   \<and> get_snapshot faultyDisk (js ''alpha'') (js ''v1'') [] = Error_500 SyntaxError
   \<and> get_snapshot faultyDisk (js ''alpha'') (js ''v9'') [] = NotFound_404"
proof -
  let ?p = "drawPoint 5 5 (js ''#000000'') 5 (js ''s1'')"
  note L = faultyDisk_lookup and D = faultyDisk_dir
  have v3: "js ''v3'' \<noteq> []" by (simp add: js_simps)
  note A = storage_faults_file_backend [of faultyDisk "js ''alpha''" twoStrokes "[]" ?p
      "js ''v9''" "[]" 7 "js ''alpha__v1.json''" "js ''alpha''" "IOError" "js ''v3''"]
  note B = storage_faults_file_backend [of faultyDisk "js ''alpha''" twoStrokes "[]" ?p
      "js ''v2''" "[]" 7 "js ''alpha__v1.json''" "js ''alpha''" "SyntaxError" "js ''v1''"]
  note C = storage_faults_file_backend [of faultyDisk "js ''alpha''" twoStrokes "[]" ?p
      "js ''v1''" "[]" 7 "js ''alpha__v1.json''" "js ''alpha''" "SyntaxError" "js ''v9''"]
  note E = storage_faults_file_backend [of faultyDisk "js ''alpha''" twoStrokes "[]" ?p
      "js ''v3''" "[]" 7 "js ''alpha__v1.json''" "js ''alpha''" "SyntaxError" "js ''v9''"]
  have 1: "loadStrokes faultyDisk (js ''alpha'') = JArr []"
    using A L(1) by blast
  have 2: "saveStrokes faultyDisk (js ''alpha'') twoStrokes = faultyDisk
      \<and> fst (removeLastStroke faultyDisk (js ''alpha'')) = faultyDisk"
    using A L(5) by blast
  have "appendStroke faultyDisk (js ''alpha'') ?p = Inr (saveStrokes faultyDisk (js ''alpha'') ([] @ [?p]))"
    using A 1 by blast
  then have 3: "appendStroke faultyDisk (js ''alpha'') ?p = Inr faultyDisk"
    using L(5) by (simp add: saveStrokes_fault)
  have 4: "loadSnapshotFile faultyDisk (js ''alpha'') (js ''v9'') = Inr None"
    using A L(4) by blast
  have 5: "loadSnapshotFile faultyDisk (js ''alpha'') (js ''v2'') = Inl IOError"
    using B L(3) by blast
  have 6: "loadSnapshotFile faultyDisk (js ''alpha'') (js ''v1'') = Inl SyntaxError"
    using C L(2) by blast
  have "snapshotFile (js ''alpha'') (if js ''v3'' = [] then [] else js ''v3'')
          \<in> set (unwritable faultyDisk)"
    using L(6) v3 by simp
  with E have 7: "saveSnapshotFile faultyDisk (js ''alpha'') (js ''v3'') [] 7 = Inl IOError"
    by blast
  have "map_of (entries faultyDisk) (path_join snapshotsDir (js ''alpha__v1.json''))
          = Some (Text Garbage)"
    using D(4) L(2) by simp
  with A D(1,2,3) have 8: "\<exists>e. listSnapshotsFile faultyDisk (js ''alpha'') = Inl e"
    by blast
  then obtain e where e: "listSnapshotsFile faultyDisk (sanitizeRoom (js ''alpha'')) = Inl e"
    by (auto simp: alpha_sanitized)
  with storage_faults_file_backend [of faultyDisk "js ''alpha''" twoStrokes "[]" ?p
      "js ''v9''" "[]" 7 "js ''alpha__v1.json''" "js ''alpha''" e "js ''v3''"]
  have 9: "\<exists>e. get_snapshots faultyDisk (js ''alpha'') = Error_500 e"
    by blast
  have "saveSnapshotFile faultyDisk (sanitizeRoom (js ''alpha'')) (sanitizeName [] (js ''v3'')) [] 7
          = Inl IOError"
    using 7 by (simp add: alpha_sanitized plain_names)
  with A have 10: "post_snapshots faultyDisk (js ''alpha'') (js ''v3'') [] 7
      = (faultyDisk, Error_500 IOError)"
    by blast
  have "loadSnapshotFile faultyDisk (sanitizeRoom (js ''alpha'')) (sanitizeName [] (js ''v1''))
          = Inl SyntaxError"
    using 6 by (simp add: alpha_sanitized plain_names)
  with B have 11: "get_snapshot faultyDisk (js ''alpha'') (js ''v1'') [] = Error_500 SyntaxError"
    by blast
  have "loadSnapshotFile faultyDisk (sanitizeRoom (js ''alpha'')) (sanitizeName [] (js ''v9''))
          = Inr None"
    using 4 by (simp add: alpha_sanitized plain_names)
  with C have 12: "get_snapshot faultyDisk (js ''alpha'') (js ''v9'') [] = NotFound_404"
    by blast
  from L D(1) 1 2 3 4 5 6 7 8 9 10 11 12 show ?thesis by blast
qed

text \<open>
  The snapshot operations do not degrade: on the faulty disk loading, saving and listing
  raise, where the claim has an empty or missing result and a no-op.
\<close>

theorem snapshot_faults_propagate:
  "loadSnapshotFile faultyDisk (js ''alpha'') (js ''v1'') = Inl SyntaxError
   \<and> loadSnapshotFile faultyDisk (js ''alpha'') (js ''v2'') = Inl IOError
   \<and> saveSnapshotFile faultyDisk (js ''alpha'') (js ''v3'') [] 7 = Inl IOError
   \<and> listSnapshotsFile faultyDisk (js ''alpha'') = Inl SyntaxError
   \<and> get_snapshot faultyDisk (js ''alpha'') (js ''v1'') [] = Error_500 SyntaxError"
proof -
  note L = faultyDisk_lookup
  have 1: "loadSnapshotFile faultyDisk (js ''alpha'') (js ''v1'') = Inl SyntaxError"
    by (simp add: loadSnapshotFile_cases L)
  have 2: "loadSnapshotFile faultyDisk (js ''alpha'') (js ''v2'') = Inl IOError"
    by (simp add: loadSnapshotFile_cases L)
  have "js ''v3'' \<noteq> []" by (simp add: js_simps)
  then have 3: "saveSnapshotFile faultyDisk (js ''alpha'') (js ''v3'') [] 7 = Inl IOError"
    using L(6) by (simp add: saveSnapshotFile_cases Let_def)
  have dir: "readdirSync faultyDisk snapshotsDir = [js ''alpha__v1.json'', js ''alpha__v2.json'']"
    unfolding faultyDisk_def faultyDisk_paths readdirSync_def snapshotsDir_eq
    by (simp add: js_simps)
  have "readFileSync faultyDisk (path_join snapshotsDir (js ''alpha__v1.json'')) = Inr Garbage"
    using faultyDisk_dir(4) L(2) by (simp add: readFileSync_def)
  then have "readMetas faultyDisk [js ''alpha__v1.json'', js ''alpha__v2.json''] = Inl SyntaxError"
    by (simp add: JSON_parse_def)
  moreover have "filter (\<lambda>f. prefix (js ''alpha'' @ js ''__'') f \<and> suffix (js ''.json'') f)
        [js ''alpha__v1.json'', js ''alpha__v2.json'']
      = [js ''alpha__v1.json'', js ''alpha__v2.json'']"
    by (simp add: js_simps suffix_def)
  ultimately have 4: "listSnapshotsFile faultyDisk (js ''alpha'') = Inl SyntaxError"
    by (simp add: listSnapshotsFile_def dir)
  have 5: "get_snapshot faultyDisk (js ''alpha'') (js ''v1'') [] = Error_500 SyntaxError"
    by (simp add: get_snapshot_def alpha_sanitized plain_names 1)
  from 1 2 3 4 5 show ?thesis by blast
qed

section \<open>The database backend: stroke documents\<close>

lemma updateOnePush_filter:
  "updateOnePush room sid p (filter (\<lambda>d. sd_room d = room) ds)
     = map_option (filter (\<lambda>d. sd_room d = room)) (updateOnePush room sid p ds)"
  by (induction ds) (auto simp: option.map_comp comp_def)

lemma updateOnePush_other_room:
  "updateOnePush room sid p ds = Some ds' \<Longrightarrow> r \<noteq> room
     \<Longrightarrow> filter (\<lambda>d. sd_room d = r) ds' = filter (\<lambda>d. sd_room d = r) ds"
  by (induction ds arbitrary: ds') (auto split: if_splits)

lemma updateOnePush_ids:
  "updateOnePush room sid p ds = Some ds' \<Longrightarrow> map sd_id ds' = map sd_id ds"
  by (induction ds arbitrary: ds') (auto split: if_splits)

text \<open>How an append changes the documents of its room, and that it changes no other room.\<close>

lemma findRoom_mongoAppendPoint:
  "findRoom (mongoAppendPoint db room sid pt now) room =
     (case updateOnePush room sid (castPoint pt now) (findRoom db room) of
        Some docs \<Rightarrow> docs
      | None \<Rightarrow> findRoom db room @
          [\<lparr>sd_id = nextId db, sd_room = room, sd_strokeId = sid,
            sd_points = [castPoint pt now], sd_createdAt = now\<rparr>])"
  by (simp add: findRoom_def mongoAppendPoint_def updateOnePush_filter split: option.splits)

lemma findRoom_mongoAppendPoint_other:
  "r \<noteq> room \<Longrightarrow> findRoom (mongoAppendPoint db room sid pt now) r = findRoom db r"
  by (auto simp: findRoom_def mongoAppendPoint_def updateOnePush_other_room split: option.splits)

lemma nextId_mongoAppendPoint:
  "nextId db \<le> nextId (mongoAppendPoint db room sid pt now)"
  by (simp add: mongoAppendPoint_def split: option.splits)

lemma findRoom_mongoClear [simp]: "findRoom (mongoClear db room) room = []"
  by (simp add: findRoom_def mongoClear_def)

lemma distinctIds_mongoClear: "distinctIds db \<Longrightarrow> distinctIds (mongoClear db room)"
  by (auto simp: distinctIds_def mongoClear_def distinct_map_filter list_all_iff)

lemma distinctIds_mongoAppendPoint:
  assumes "distinctIds db"
  shows "distinctIds (mongoAppendPoint db room sid pt now)"
proof (cases "updateOnePush room sid (castPoint pt now) (strokeDocs db)")
  case None
  with assms show ?thesis
    by (auto simp: distinctIds_def mongoAppendPoint_def list_all_iff)
next
  case (Some docs)
  from updateOnePush_ids [OF Some] have ids: "map sd_id docs = map sd_id (strokeDocs db)" .
  then have img: "sd_id ` set docs = sd_id ` set (strokeDocs db)"
    by (metis set_map)
  have below: "\<forall>d\<in>set docs. sd_id d < nextId db"
  proof
    fix d assume "d \<in> set docs"
    then have "sd_id d \<in> sd_id ` set (strokeDocs db)" using img by blast
    then obtain d' where "d' \<in> set (strokeDocs db)" "sd_id d = sd_id d'" by blast
    with assms show "sd_id d < nextId db" by (simp add: distinctIds_def list_all_iff)
  qed
  from assms have "distinct (map sd_id docs)" by (simp add: ids distinctIds_def)
  with below Some show ?thesis
    by (simp add: distinctIds_def mongoAppendPoint_def list_all_iff)
qed

lemma deleteOne_remove1:
  "distinct (map sd_id ds) \<Longrightarrow> d \<in> set ds \<Longrightarrow> deleteOne (sd_id d) ds = remove1 d ds"
  by (induction ds) auto

lemma findRoom_deleteOne:
  assumes "distinctIds db" and "findRoom db room = docs @ [d]"
  shows "findRoom (db\<lparr>strokeDocs := deleteOne (sd_id d) (strokeDocs db)\<rparr>) room = docs"
proof -
  have "d \<in> set (findRoom db room)" using assms(2) by simp
  then have d: "d \<in> set (strokeDocs db)" by (simp add: findRoom_def)
  have dist: "distinct (strokeDocs db)"
    using assms(1) by (simp add: distinctIds_def distinct_map)
  then have "distinct (findRoom db room)" by (simp add: findRoom_def)
  then have notin: "d \<notin> set docs" using assms(2) by auto
  have "findRoom (db\<lparr>strokeDocs := deleteOne (sd_id d) (strokeDocs db)\<rparr>) room
          = filter (\<lambda>d. sd_room d = room) (remove1 d (strokeDocs db))"
    using assms(1) d by (simp add: findRoom_def distinctIds_def deleteOne_remove1)
  also have "\<dots> = remove1 d (findRoom db room)"
    by (simp add: findRoom_def filter_remove1)
  also have "\<dots> = docs"
    using assms(2) notin by (simp add: remove1_append)
  finally show ?thesis .
qed

lemma sortCreatedAt_single [simp]: "sortCreatedAt [d] = [d]" "sortCreatedAt [] = []"
  by (simp_all add: sortCreatedAt_def)

lemma mongoUndo_empty:
  "findRoom db room = [] \<Longrightarrow> mongoUndo db room = (db, [])"
  by (simp add: mongoUndo_def)


text \<open>Applying a snapshot: every point goes into the one document \<open>snapshot\<close>.\<close>

lemma appendAll_into_document:
  assumes "findRoom db room = [d]" and "sd_room d = room" and "sd_strokeId d = js ''snapshot''"
  shows "findRoom (appendAll db room clock k history) room
           = [d\<lparr>sd_points := sd_points d @ stamped clock k history\<rparr>]"
  using assms
proof (induction history arbitrary: db d k)
  case Nil
  then show ?case by (simp add: stamped_def)
next
  case (Cons pt history)
  let ?d' = "d\<lparr>sd_points := sd_points d @ [castPoint pt (clock k)]\<rparr>"
  let ?db' = "mongoAppendPoint db room (js ''snapshot'') pt (clock k)"
  have step: "findRoom ?db' room = [?d']"
    using Cons.prems by (simp add: findRoom_mongoAppendPoint)
  have "findRoom (appendAll ?db' room clock (Suc k) history) room
          = [?d'\<lparr>sd_points := sd_points ?d' @ stamped clock (Suc k) history\<rparr>]"
    using Cons.prems by (intro Cons.IH [OF step]) simp_all
  then show ?case by (simp add: stamped_def)
qed

lemma appendAll_after_clear:
  assumes "findRoom db room = []"
  shows "findRoom (appendAll db room clock k (pt # history)) room
           = [\<lparr>sd_id = nextId db, sd_room = room, sd_strokeId = js ''snapshot'',
               sd_points = stamped clock k (pt # history), sd_createdAt = clock k\<rparr>]"
proof -
  let ?d = "\<lparr>sd_id = nextId db, sd_room = room, sd_strokeId = js ''snapshot'',
             sd_points = [castPoint pt (clock k)], sd_createdAt = clock k\<rparr>"
  let ?db' = "mongoAppendPoint db room (js ''snapshot'') pt (clock k)"
  have "findRoom ?db' room = [?d]"
    using assms by (simp add: findRoom_mongoAppendPoint)
  from appendAll_into_document [OF this, of clock "Suc k" history]
  show ?thesis by (simp add: stamped_def)
qed


lemma mongoLoadAllPoints_applied:
  assumes "findRoom db room = []"
  shows "mongoLoadAllPoints (appendAll db room clock 0 history) room = stamped clock 0 history"
proof (cases history)
  case Nil
  with assms show ?thesis by (simp add: mongoLoadAllPoints_def stamped_def)
next
  case (Cons pt rest)
  with appendAll_after_clear [OF assms, of clock 0 pt rest]
  show ?thesis by (simp add: mongoLoadAllPoints_def)
qed

section \<open>The event router: joins, undo and applied snapshots\<close>

lemma socketsIn_set: "set (socketsIn srv room) = {s. (s, room) \<in> set (joined srv)}"
  by (auto simp: socketsIn_def image_iff)




lemma on_applySnapshot_array:
  "on_applySnapshot srv socket room clock (VArray history) =
     ((if useMongo srv
       then srv\<lparr>mongo := appendAll (mongoClear (mongo srv) room) room clock 0 history\<rparr>
       else srv\<lparr>files := saveStrokes (files srv) room history\<rparr>),
      map (\<lambda>s. (s, ResetWithHistory history)) (socketsIn srv room))"
  by (simp add: on_applySnapshot_def isArray_def elements_def Let_def io_to_emit_def socketsIn_def)

lemma loadAll_mongo:
  "useMongo srv \<Longrightarrow> loadAll (srv\<lparr>mongo := db\<rparr>) room = JArr (mongoLoadAllPoints db room)"
  by (simp add: loadAll_def)

lemma stamped_drawn: "map drawn (stamped clock k history) = map drawn history"
  by (induction history arbitrary: k) (simp_all add: stamped_def drawn_def castPoint_def)

lemma stamped_strokeId: "map pt_strokeId (stamped clock k history) = map (\<lambda>pt. None) history"
  by (induction history arbitrary: k) (simp_all add: stamped_def castPoint_def)

lemma stamped_order:
  "map pt_order (stamped clock k history)
     = map (\<lambda>i. Some (clock i)) [k ..< k + length history]"
proof (induction history arbitrary: k)
  case Nil
  then show ?case by (simp add: stamped_def)
next
  case (Cons pt history)
  have "map pt_order (stamped clock k (pt # history))
          = Some (clock k) # map pt_order (stamped clock (Suc k) history)"
    by (simp add: stamped_def castPoint_def)
  also have "\<dots> = Some (clock k) # map (\<lambda>i. Some (clock i)) [Suc k ..< Suc k + length history]"
    by (simp only: Cons.IH)
  also have "\<dots> = map (\<lambda>i. Some (clock i)) (k # [Suc k ..< Suc k + length history])"
    by simp
  also have "k # [Suc k ..< Suc k + length history] = [k ..< k + length (pt # history)]"
    by (subst (2) upt_rec) simp
  finally show ?case .
qed

text \<open>
  Claim C5, as amended. An \<open>applySnapshot\<close> whose payload is not an array leaves the
  server as it was and sends nothing. With an array the handler sends
  \<open>resetWithHistory\<close> with the payload itself to every socket in the room, the sender
  among them, and replaces the room's log: on the file backend (where the log file can be
  written) the log is the payload; on the database backend the log holds the payload's
  points in the same order with the same x, y, type, color and width, each without its
  strokeId and with the clock's reading at its append as its order.
\<close>

theorem applySnapshot_validates_payload:
  "(\<not> isArray payload \<longrightarrow> on_applySnapshot srv socket room clock payload = (srv, []))
   \<and> (payload = VArray history \<longrightarrow>
         snd (on_applySnapshot srv socket room clock payload)
           = map (\<lambda>s. (s, ResetWithHistory history)) (socketsIn srv room)
       \<and> set (socketsIn srv room) = {s. (s, room) \<in> set (joined srv)}
       \<and> ((socket, room) \<in> set (joined srv) \<longrightarrow>
            (socket, ResetWithHistory history)
              \<in> set (snd (on_applySnapshot srv socket room clock payload)))
       \<and> (\<not> useMongo srv \<and> fileForRoom room \<notin> set (unwritable (files srv)) \<longrightarrow>
            loadAll (fst (on_applySnapshot srv socket room clock payload)) room = JArr history)
       \<and> (useMongo srv \<longrightarrow>
            (\<exists>stored.
               loadAll (fst (on_applySnapshot srv socket room clock payload)) room = JArr stored
               \<and> map drawn stored = map drawn history
               \<and> map pt_strokeId stored = map (\<lambda>pt. None) history
               \<and> map pt_order stored = map (\<lambda>i. Some (clock i)) [0 ..< length history])))"
proof (intro conjI impI)
  assume "\<not> isArray payload"
  then show "on_applySnapshot srv socket room clock payload = (srv, [])"
    by (simp add: on_applySnapshot_def)
next
  assume p: "payload = VArray history"
  show sent: "snd (on_applySnapshot srv socket room clock payload)
           = map (\<lambda>s. (s, ResetWithHistory history)) (socketsIn srv room)"
    by (simp add: p on_applySnapshot_array)
  show "set (socketsIn srv room) = {s. (s, room) \<in> set (joined srv)}"
    by (rule socketsIn_set)
  {
    assume "(socket, room) \<in> set (joined srv)"
    then have "socket \<in> set (socketsIn srv room)" by (simp add: socketsIn_set)
    then show "(socket, ResetWithHistory history)
              \<in> set (snd (on_applySnapshot srv socket room clock payload))"
      by (simp add: sent)
  }
  {
    assume "\<not> useMongo srv \<and> fileForRoom room \<notin> set (unwritable (files srv))"
    then show "loadAll (fst (on_applySnapshot srv socket room clock payload)) room = JArr history"
      by (simp add: p on_applySnapshot_array loadAll_def load_after_save)
  }
  {
    assume "useMongo srv"
    then have "loadAll (fst (on_applySnapshot srv socket room clock payload)) room
              = JArr (stamped clock 0 history)"
      by (simp add: p on_applySnapshot_array loadAll_def mongoLoadAllPoints_applied)
    moreover have "map pt_order (stamped clock 0 history)
        = map (\<lambda>i. Some (clock i)) [0 ..< length history]"
      using stamped_order [of clock 0 history] by simp
    ultimately show "\<exists>stored.
               loadAll (fst (on_applySnapshot srv socket room clock payload)) room = JArr stored
               \<and> map drawn stored = map drawn history
               \<and> map pt_strokeId stored = map (\<lambda>pt. None) history
               \<and> map pt_order stored = map (\<lambda>i. Some (clock i)) [0 ..< length history]"
      using stamped_drawn [of clock 0 history] stamped_strokeId [of clock 0 history] by blast
  }
qed



lemma gallery_facts:
  "useMongo gallery" "distinctIds (mongo gallery)"
  "socketsIn gallery (js ''alpha'') = [1, 2]"
  "(1, js ''alpha'') \<in> set (joined gallery)"
  by (simp_all add: gallery_def distinctIds_def socketsIn_def)

lemma studio_facts:
  "\<not> useMongo studio" "socketsIn studio (js ''alpha'') = [1]"
  "(1, js ''alpha'') \<in> set (joined studio)"
  "fileForRoom (js ''alpha'') \<notin> set (unwritable (files studio))"
  by (simp_all add: studio_def socketsIn_def)

lemma stamped_two: "stamped clock k [p, q] = [castPoint p (clock k), castPoint q (clock (Suc k))]"
  by (simp add: stamped_def)

theorem applySnapshot_witness:
  "\<not> isArray (VString (js ''not a history''))
   \<and> on_applySnapshot studio 1 (js ''alpha'') (\<lambda>k. 100 + k) (VString (js ''not a history''))
       = (studio, [])
   \<and> \<not> isArray VNull
   \<and> on_applySnapshot gallery 1 (js ''alpha'') (\<lambda>k. 100 + k) VNull = (gallery, [])
   \<and> (1, js ''alpha'') \<in> set (joined studio)
   \<and> \<not> useMongo studio \<and> fileForRoom (js ''alpha'') \<notin> set (unwritable (files studio))
   \<and> snd (on_applySnapshot studio 1 (js ''alpha'') (\<lambda>k. 100 + k)
            (VArray [drawPoint 5 5 (js ''#000000'') 5 (js ''s1'')]))
       = [(1, ResetWithHistory [drawPoint 5 5 (js ''#000000'') 5 (js ''s1'')])]
   \<and> loadAll (fst (on_applySnapshot studio 1 (js ''alpha'') (\<lambda>k. 100 + k)
            (VArray [drawPoint 5 5 (js ''#000000'') 5 (js ''s1'')]))) (js ''alpha'')
       = JArr [drawPoint 5 5 (js ''#000000'') 5 (js ''s1'')]
   \<and> useMongo gallery
   \<and> snd (on_applySnapshot gallery 1 (js ''alpha'') (\<lambda>k. 100 + k)
            (VArray [startPoint 0 0 (js ''#000000'') 5 (js ''s1''),
                     drawPoint 5 5 (js ''#000000'') 5 (js ''s1'')]))
       = [(1, ResetWithHistory [startPoint 0 0 (js ''#000000'') 5 (js ''s1''),
                                drawPoint 5 5 (js ''#000000'') 5 (js ''s1'')]),
          (2, ResetWithHistory [startPoint 0 0 (js ''#000000'') 5 (js ''s1''),
                                drawPoint 5 5 (js ''#000000'') 5 (js ''s1'')])]
   \<and> (\<exists>stored.
         loadAll (fst (on_applySnapshot gallery 1 (js ''alpha'') (\<lambda>k. 100 + k)
            (VArray [startPoint 0 0 (js ''#000000'') 5 (js ''s1''),
                     drawPoint 5 5 (js ''#000000'') 5 (js ''s1'')]))) (js ''alpha'')
           = JArr stored
         \<and> map drawn stored
             = map drawn [startPoint 0 0 (js ''#000000'') 5 (js ''s1''),
                          drawPoint 5 5 (js ''#000000'') 5 (js ''s1'')]
         \<and> map pt_strokeId stored = [None, None]
         \<and> map pt_order stored = [Some 100, Some 101])"
proof -
  let ?clock = "\<lambda>k::nat. 100 + k"
  let ?d = "[drawPoint 5 5 (js ''#000000'') 5 (js ''s1'')]"
  let ?h = "[startPoint 0 0 (js ''#000000'') 5 (js ''s1''),
             drawPoint 5 5 (js ''#000000'') 5 (js ''s1'')]"
  note S = studio_facts and G = gallery_facts
  have n1: "\<not> isArray (VString (js ''not a history''))" by (simp add: isArray_def)
  have n2: "\<not> isArray VNull" by (simp add: isArray_def)
  have 1: "on_applySnapshot studio 1 (js ''alpha'') ?clock (VString (js ''not a history''))
       = (studio, [])"
    using applySnapshot_validates_payload
      [of "VString (js ''not a history'')" studio 1 "js ''alpha''" ?clock "[]"] n1
    by blast
  have 2: "on_applySnapshot gallery 1 (js ''alpha'') ?clock VNull = (gallery, [])"
    using applySnapshot_validates_payload [of VNull gallery 1 "js ''alpha''" ?clock "[]"] n2
    by blast
  note A = applySnapshot_validates_payload [of "VArray ?d" studio 1 "js ''alpha''" ?clock ?d]
  have 3: "snd (on_applySnapshot studio 1 (js ''alpha'') ?clock (VArray ?d))
       = map (\<lambda>s. (s, ResetWithHistory ?d)) (socketsIn studio (js ''alpha''))"
    using A by blast
  have 4: "loadAll (fst (on_applySnapshot studio 1 (js ''alpha'') ?clock (VArray ?d))) (js ''alpha'')
       = JArr ?d"
    using A S(1,4) by blast
  note B = applySnapshot_validates_payload [of "VArray ?h" gallery 1 "js ''alpha''" ?clock ?h]
  have 5: "snd (on_applySnapshot gallery 1 (js ''alpha'') ?clock (VArray ?h))
       = map (\<lambda>s. (s, ResetWithHistory ?h)) (socketsIn gallery (js ''alpha''))"
    using B by blast
  from B G(1) obtain stored where
    st: "loadAll (fst (on_applySnapshot gallery 1 (js ''alpha'') ?clock (VArray ?h))) (js ''alpha'')
           = JArr stored"
      "map drawn stored = map drawn ?h"
      "map pt_strokeId stored = map (\<lambda>pt. None) ?h"
      "map pt_order stored = map (\<lambda>i. Some (?clock i)) [0 ..< length ?h]"
    by blast
  have "[0 ..< length ?h] = [0, Suc 0]" by (simp add: upt_rec)
  with st(3,4) have "map pt_strokeId stored = [None, None]"
    "map pt_order stored = [Some 100, Some 101]"
    by simp_all
  then have 6: "\<exists>stored.
      loadAll (fst (on_applySnapshot gallery 1 (js ''alpha'') ?clock (VArray ?h))) (js ''alpha'')
        = JArr stored
      \<and> map drawn stored = map drawn ?h
      \<and> map pt_strokeId stored = [None, None]
      \<and> map pt_order stored = [Some 100, Some 101]"
    using st(1,2) by (intro exI [of _ stored] conjI)
  have r3: "snd (on_applySnapshot studio 1 (js ''alpha'') ?clock (VArray ?d))
       = [(1, ResetWithHistory ?d)]"
    using 3 by (simp add: S(2))
  have r5: "snd (on_applySnapshot gallery 1 (js ''alpha'') ?clock (VArray ?h))
       = [(1, ResetWithHistory ?h), (2, ResetWithHistory ?h)]"
    using 5 by (simp add: G(3))
  from n1 n2 1 2 S G(1) r3 4 r5 6 show ?thesis by blast
qed

text \<open>
  On the database backend the log after an \<open>applySnapshot\<close> is not the payload: the
  stored points have lost their strokeId and carry an order.
\<close>

theorem applySnapshot_database_log_differs:
  "useMongo gallery
   \<and> isArray (VArray [startPoint 0 0 (js ''#000000'') 5 (js ''s1''),
                       drawPoint 5 5 (js ''#000000'') 5 (js ''s1'')])
   \<and> loadAll (fst (on_applySnapshot gallery 1 (js ''alpha'') (\<lambda>k. 100 + k)
            (VArray [startPoint 0 0 (js ''#000000'') 5 (js ''s1''),
                     drawPoint 5 5 (js ''#000000'') 5 (js ''s1'')]))) (js ''alpha'')
       = JArr [castPoint (startPoint 0 0 (js ''#000000'') 5 (js ''s1'')) 100,
               castPoint (drawPoint 5 5 (js ''#000000'') 5 (js ''s1'')) 101]
   \<and> loadAll (fst (on_applySnapshot gallery 1 (js ''alpha'') (\<lambda>k. 100 + k)
            (VArray [startPoint 0 0 (js ''#000000'') 5 (js ''s1''),
                     drawPoint 5 5 (js ''#000000'') 5 (js ''s1'')]))) (js ''alpha'')
       \<noteq> JArr [startPoint 0 0 (js ''#000000'') 5 (js ''s1''),
                 drawPoint 5 5 (js ''#000000'') 5 (js ''s1'')]"
proof -
  let ?clock = "\<lambda>k::nat. 100 + k"
  let ?h = "[startPoint 0 0 (js ''#000000'') 5 (js ''s1''),
             drawPoint 5 5 (js ''#000000'') 5 (js ''s1'')]"
  have m: "useMongo gallery" by (rule gallery_facts)
  have a: "isArray (VArray ?h)" by (simp add: isArray_def)
  let ?db = "appendAll (mongoClear (mongo gallery) (js ''alpha'')) (js ''alpha'') ?clock 0 ?h"
  have e: "fst (on_applySnapshot gallery 1 (js ''alpha'') ?clock (VArray ?h))
      = gallery\<lparr>mongo := ?db\<rparr>"
    using m by (simp only: on_applySnapshot_array fst_conv if_True)
  have stored: "mongoLoadAllPoints ?db (js ''alpha'') = stamped ?clock 0 ?h"
    by (rule mongoLoadAllPoints_applied) (rule findRoom_mongoClear)
  have "loadAll (gallery\<lparr>mongo := ?db\<rparr>) (js ''alpha'')
      = JArr (mongoLoadAllPoints ?db (js ''alpha''))"
    using m by (rule loadAll_mongo)
  then have l: "loadAll (fst (on_applySnapshot gallery 1 (js ''alpha'') ?clock (VArray ?h)))
        (js ''alpha'')
      = JArr [castPoint (startPoint 0 0 (js ''#000000'') 5 (js ''s1'')) 100,
              castPoint (drawPoint 5 5 (js ''#000000'') 5 (js ''s1'')) 101]"
    by (simp only: e stored stamped_two) simp
  have "castPoint (startPoint 0 0 (js ''#000000'') 5 (js ''s1'')) 100
          \<noteq> startPoint 0 0 (js ''#000000'') 5 (js ''s1'')"
    by (simp add: castPoint_def startPoint_def)
  then have d: "loadAll (fst (on_applySnapshot gallery 1 (js ''alpha'') ?clock (VArray ?h)))
      (js ''alpha'') \<noteq> JArr ?h"
    unfolding l by simp
  from m a l d show ?thesis by blast
qed






section \<open>The two backends agree on contiguous strokes\<close>

lemma drawn_castPoint [simp]: "drawn (castPoint pt now) = drawn pt"
  by (simp add: drawn_def castPoint_def)

lemma pt_type_castPoint [simp]: "pt_type (castPoint pt now) = pt_type pt"
  by (simp add: castPoint_def)

lemma pt_type_drawn [simp]: "pt_type (drawn pt) = pt_type pt"
  by (simp add: drawn_def)

lemma drawn_types:
  assumes "map drawn L = map drawn M"
  shows "map pt_type L = map pt_type M"
proof -
  have "map pt_type (map drawn L) = map pt_type (map drawn M)" using assms by simp
  then show ?thesis by (simp add: comp_def)
qed

lemma sortCreatedAt_sorted:
  assumes "sorted_wrt (<) (map sd_createdAt docs)"
  shows "sortCreatedAt docs = docs"
proof -
  have "sorted (map sd_createdAt docs)"
    using assms by (rule sorted_wrt_mono_rel [rotated]) simp
  then show ?thesis by (simp add: sortCreatedAt_def sort_key_id_if_sorted)
qed

lemma findRoom_room: "d \<in> set (findRoom db room) \<Longrightarrow> sd_room d = room"
  by (simp add: findRoom_def)

lemma updateOnePush_None:
  "\<forall>d\<in>set ds. sd_strokeId d \<noteq> sid \<Longrightarrow> updateOnePush room sid p ds = None"
  by (induction ds) auto

lemma updateOnePush_last:
  assumes "\<forall>e\<in>set ds. sd_strokeId e \<noteq> sid" and "sd_room d = room" and "sd_strokeId d = sid"
  shows "updateOnePush room sid p (ds @ [d]) = Some (ds @ [d\<lparr>sd_points := sd_points d @ [p]\<rparr>])"
  using assms by (induction ds) auto

lemma set_deleteOne: "set (deleteOne i ds) \<subseteq> set ds"
  by (induction ds) auto

lemma distinct_deleteOne: "distinct (map sd_id ds) \<Longrightarrow> distinct (map sd_id (deleteOne i ds))"
proof (induction ds)
  case Nil
  then show ?case by simp
next
  case (Cons d ds)
  have "sd_id ` set (deleteOne i ds) \<subseteq> sd_id ` set ds"
    using set_deleteOne [of i ds] by blast
  with Cons show ?case by auto
qed

lemma distinctIds_deleteOne:
  "distinctIds db \<Longrightarrow> distinctIds (db\<lparr>strokeDocs := deleteOne i (strokeDocs db)\<rparr>)"
  using set_deleteOne [of i "strokeDocs db"]
  by (auto simp: distinctIds_def distinct_deleteOne list_all_iff)

lemma inStepI:
  assumes "loadStrokes fs room = JArr L"
    and "map drawn L = map drawn (concat (map sd_points (findRoom db room)))"
    and "sorted_wrt (<) (map sd_createdAt (findRoom db room))"
    and "distinct (map sd_strokeId (findRoom db room))"
    and "list_all oneStroke (findRoom db room)"
    and "distinctIds db"
    and "fileForRoom room \<notin> set (unwritable fs)"
  shows "inStep room fs db"
  using assms by (simp add: inStep_def)

lemma inStepE:
  assumes "inStep room fs db"
  obtains L where "loadStrokes fs room = JArr L"
    and "map drawn L = map drawn (concat (map sd_points (findRoom db room)))"
    and "sorted_wrt (<) (map sd_createdAt (findRoom db room))"
    and "distinct (map sd_strokeId (findRoom db room))"
    and "list_all oneStroke (findRoom db room)"
    and "distinctIds db"
    and "fileForRoom room \<notin> set (unwritable fs)"
  using assms by (auto simp: inStep_def split: json.splits)

lemma newestDoc_sorted:
  assumes "sorted_wrt (<) (map sd_createdAt (findRoom db room))"
  shows "newestDoc db room = (if findRoom db room = [] then None else Some (last (findRoom db room)))"
  unfolding newestDoc_def sortCreatedAt_sorted [OF assms]
  by (cases "findRoom db room" rule: rev_cases) simp_all

text \<open>A \<open>start\<close> point opens a new document at the end; the file appends the point.\<close>

lemma inStep_start:
  assumes inv: "inStep room fs db" and adm: "admissible room db (Append now pt)"
    and start: "pt_type pt = js ''start''"
  shows "inStep room (fileStep room fs (Append now pt)) (mongoStep room db (Append now pt))"
proof -
  let ?docs = "findRoom db room" and ?sid = "strokeIdOrLegacy pt"
  let ?new = "\<lparr>sd_id = nextId db, sd_room = room, sd_strokeId = ?sid,
               sd_points = [castPoint pt now], sd_createdAt = now\<rparr>"
  from inv obtain L where L: "loadStrokes fs room = JArr L"
    and same: "map drawn L = map drawn (concat (map sd_points ?docs))"
    and sorted: "sorted_wrt (<) (map sd_createdAt ?docs)"
    and dist: "distinct (map sd_strokeId ?docs)"
    and strokes: "list_all oneStroke ?docs"
    and ids: "distinctIds db"
    and w: "fileForRoom room \<notin> set (unwritable fs)"
    by (rule inStepE)
  from adm start have "?sid \<notin> sd_strokeId ` set ?docs"
    and later: "\<forall>d\<in>set ?docs. sd_createdAt d < now"
    by (simp_all add: admissible_def list_all_iff)
  then have fresh: "\<forall>d\<in>set ?docs. sd_strokeId d \<noteq> ?sid"
    by (metis image_eqI)
  have written: "fileStep room fs (Append now pt) = saveStrokes fs room (L @ [pt])"
    by (simp add: fileStep_def appendStroke_cases L)
  have docs': "findRoom (mongoStep room db (Append now pt)) room = ?docs @ [?new]"
    by (simp add: mongoStep_def findRoom_mongoAppendPoint updateOnePush_None [OF fresh])
  show ?thesis
  proof (rule inStepI)
    show "loadStrokes (fileStep room fs (Append now pt)) room = JArr (L @ [pt])"
      by (simp add: written load_after_save [OF w])
    show "map drawn (L @ [pt])
        = map drawn (concat (map sd_points (findRoom (mongoStep room db (Append now pt)) room)))"
      by (simp add: docs' same)
    show "sorted_wrt (<) (map sd_createdAt (findRoom (mongoStep room db (Append now pt)) room))"
      using sorted later by (simp add: docs' sorted_wrt_append)
    show "distinct (map sd_strokeId (findRoom (mongoStep room db (Append now pt)) room))"
      using dist fresh by (auto simp: docs')
    show "list_all oneStroke (findRoom (mongoStep room db (Append now pt)) room)"
      using strokes start by (simp add: docs' oneStroke_def)
    show "distinctIds (mongoStep room db (Append now pt))"
      using ids by (simp add: mongoStep_def distinctIds_mongoAppendPoint)
    show "fileForRoom room \<notin> set (unwritable (fileStep room fs (Append now pt)))"
      using w by (simp add: written)
  qed
qed

text \<open>Any other point goes into the newest document, the last; the file appends it.\<close>

lemma inStep_draw:
  assumes inv: "inStep room fs db" and adm: "admissible room db (Append now pt)"
    and other: "pt_type pt \<noteq> js ''start''"
  shows "inStep room (fileStep room fs (Append now pt)) (mongoStep room db (Append now pt))"
proof -
  let ?docs = "findRoom db room" and ?sid = "strokeIdOrLegacy pt"
  from inv obtain L where L: "loadStrokes fs room = JArr L"
    and same: "map drawn L = map drawn (concat (map sd_points ?docs))"
    and sorted: "sorted_wrt (<) (map sd_createdAt ?docs)"
    and dist: "distinct (map sd_strokeId ?docs)"
    and strokes: "list_all oneStroke ?docs"
    and ids: "distinctIds db"
    and w: "fileForRoom room \<notin> set (unwritable fs)"
    by (rule inStepE)
  from adm other have ne: "?docs \<noteq> []" and sid: "sd_strokeId (last ?docs) = ?sid"
    by (auto simp: admissible_def newestDoc_sorted [OF sorted] split: if_splits)
  from ne obtain ds d where docs: "?docs = ds @ [d]" by (cases ?docs rule: rev_cases) auto
  let ?d' = "d\<lparr>sd_points := sd_points d @ [castPoint pt now]\<rparr>"
  have d: "sd_strokeId d = ?sid" "sd_room d = room"
    using sid docs findRoom_room [of d db room] by simp_all
  have "?sid \<notin> sd_strokeId ` set ds"
    using dist d(1) by (simp add: docs)
  then have others: "\<forall>e\<in>set ds. sd_strokeId e \<noteq> ?sid"
    by (metis image_eqI)
  have written: "fileStep room fs (Append now pt) = saveStrokes fs room (L @ [pt])"
    by (simp add: fileStep_def appendStroke_cases L)
  have docs': "findRoom (mongoStep room db (Append now pt)) room = ds @ [?d']"
    by (simp add: mongoStep_def findRoom_mongoAppendPoint docs
        updateOnePush_last [OF others d(2) d(1)])
  show ?thesis
  proof (rule inStepI)
    show "loadStrokes (fileStep room fs (Append now pt)) room = JArr (L @ [pt])"
      by (simp add: written load_after_save [OF w])
    show "map drawn (L @ [pt])
        = map drawn (concat (map sd_points (findRoom (mongoStep room db (Append now pt)) room)))"
      using same by (simp add: docs' docs)
    show "sorted_wrt (<) (map sd_createdAt (findRoom (mongoStep room db (Append now pt)) room))"
      using sorted by (simp add: docs' docs)
    show "distinct (map sd_strokeId (findRoom (mongoStep room db (Append now pt)) room))"
      using dist by (simp add: docs' docs)
    show "list_all oneStroke (findRoom (mongoStep room db (Append now pt)) room)"
      using strokes other by (auto simp: docs' docs oneStroke_def split: list.splits)
    show "distinctIds (mongoStep room db (Append now pt))"
      using ids by (simp add: mongoStep_def distinctIds_mongoAppendPoint)
    show "fileForRoom room \<notin> set (unwritable (fileStep room fs (Append now pt)))"
      using w by (simp add: written)
  qed
qed

lemma inStep_clear:
  assumes inv: "inStep room fs db"
  shows "inStep room (fileStep room fs ClearLog) (mongoStep room db ClearLog)"
proof -
  from inv have ids: "distinctIds db" and w: "fileForRoom room \<notin> set (unwritable fs)"
    by (auto elim: inStepE)
  show ?thesis
  proof (rule inStepI)
    show "loadStrokes (fileStep room fs ClearLog) room = JArr []"
      by (simp add: fileStep_def load_after_save [OF w])
    show "distinctIds (mongoStep room db ClearLog)"
      using ids by (simp add: mongoStep_def distinctIds_mongoClear)
    show "fileForRoom room \<notin> set (unwritable (fileStep room fs ClearLog))"
      using w by (simp add: fileStep_def)
  qed (simp_all add: mongoStep_def)
qed


lemma non_start_types:
  "list_all (\<lambda>q. pt_type q \<noteq> js ''start'') ps \<longleftrightarrow> js ''start'' \<notin> set (map pt_type ps)"
  by (induction ps) auto

text \<open>
  Undo: the last \<open>start\<close> point of the log is the first point of the last document, so
  the backward scan cuts the log where the last document begins, and that document is
  the one \<open>mongoUndo\<close> deletes.
\<close>

lemma inStep_undo:
  assumes inv: "inStep room fs db"
  shows "inStep room (fileStep room fs UndoLast) (mongoStep room db UndoLast)
       \<and> map drawn (snd (removeLastStroke fs room)) = map drawn (snd (mongoUndo db room))"
proof -
  let ?docs = "findRoom db room"
  from inv obtain L where L: "loadStrokes fs room = JArr L"
    and same: "map drawn L = map drawn (concat (map sd_points ?docs))"
    and sorted: "sorted_wrt (<) (map sd_createdAt ?docs)"
    and dist: "distinct (map sd_strokeId ?docs)"
    and strokes: "list_all oneStroke ?docs"
    and ids: "distinctIds db"
    and w: "fileForRoom room \<notin> set (unwritable fs)"
    by (rule inStepE)
  show ?thesis
  proof (cases ?docs rule: rev_cases)
    case Nil
    with same have empty: "L = []" by simp
    have f: "removeLastStroke fs room = (saveStrokes fs room [], [])"
      by (simp add: removeLastStroke_result [OF L] empty)
    have m: "mongoUndo db room = (db, [])"
      using Nil by (rule mongoUndo_empty)
    have "inStep room (fileStep room fs UndoLast) (mongoStep room db UndoLast)"
    proof (rule inStepI)
      show "loadStrokes (fileStep room fs UndoLast) room = JArr []"
        by (simp add: fileStep_def f load_after_save [OF w])
      show "fileForRoom room \<notin> set (unwritable (fileStep room fs UndoLast))"
        using w by (simp add: fileStep_def f)
      show "distinctIds (mongoStep room db UndoLast)"
        using ids by (simp add: mongoStep_def m)
    qed (simp_all add: mongoStep_def m Nil)
    then show ?thesis by (simp add: f m)
  next
    case (snoc ds d)
    let ?P = "concat (map sd_points ds)"
    let ?n = "length ?P"
    let ?db' = "db\<lparr>strokeDocs := deleteOne (sd_id d) (strokeDocs db)\<rparr>"
    from strokes snoc obtain s rest where pts: "sd_points d = s # rest"
      and s: "pt_type s = js ''start''"
      and rest: "list_all (\<lambda>q. pt_type q \<noteq> js ''start'') rest"
      by (auto simp: oneStroke_def split: list.splits)
    have same': "map drawn L = map drawn ?P @ drawn s # map drawn rest"
      using same by (simp add: snoc pts)
    then have types: "map pt_type L = map pt_type ?P @ js ''start'' # map pt_type rest"
      using drawn_types [of L "?P @ s # rest"] s by simp
    have len: "length L = ?n + Suc (length rest)"
      using arg_cong [OF same', of length] by simp
    then have n: "?n < length L" by simp
    have split: "L = take ?n L @ L ! ?n # drop (Suc ?n) L"
      using n by (rule id_take_nth_drop)
    have "map pt_type L ! ?n = js ''start''"
      by (simp add: types nth_append)
    then have here: "pt_type (L ! ?n) = js ''start''"
      using n by simp
    have "map pt_type (drop (Suc ?n) L) = map pt_type rest"
      by (simp add: drop_map [symmetric] types)
    then have after: "list_all (\<lambda>q. pt_type q \<noteq> js ''start'') (drop (Suc ?n) L)"
      using rest by (simp add: non_start_types)
    have "scanBack (take ?n L @ L ! ?n # drop (Suc ?n) L)
            (length (take ?n L @ L ! ?n # drop (Suc ?n) L)) = Some (length (take ?n L))"
      using here after by (rule scanBack_last_start)
    then have "scanBack L (length L) = Some ?n"
      using split n by (simp add: min_def)
    then have f: "removeLastStroke fs room = (saveStrokes fs room (take ?n L), take ?n L)"
      by (simp add: removeLastStroke_result [OF L])
    have kept: "map drawn (take ?n L) = map drawn ?P"
      by (simp add: take_map [symmetric] same')
    have "sortCreatedAt ?docs = ds @ [d]"
      using sortCreatedAt_sorted [OF sorted] snoc by simp
    then have m: "mongoUndo db room = (?db', mongoLoadAllPoints ?db' room)"
      by (simp add: mongoUndo_def Let_def)
    have docs': "findRoom ?db' room = ds"
      using ids snoc by (rule findRoom_deleteOne)
    have sorted': "sorted_wrt (<) (map sd_createdAt ds)"
      using sorted by (simp add: snoc sorted_wrt_append)
    have loaded: "mongoLoadAllPoints ?db' room = ?P"
      by (simp add: mongoLoadAllPoints_def docs' sortCreatedAt_sorted [OF sorted'])
    have "inStep room (fileStep room fs UndoLast) (mongoStep room db UndoLast)"
    proof (rule inStepI)
      show "loadStrokes (fileStep room fs UndoLast) room = JArr (take ?n L)"
        by (simp add: fileStep_def f load_after_save [OF w])
      show "map drawn (take ?n L)
          = map drawn (concat (map sd_points (findRoom (mongoStep room db UndoLast) room)))"
        by (simp add: mongoStep_def m docs' kept)
      show "sorted_wrt (<) (map sd_createdAt (findRoom (mongoStep room db UndoLast) room))"
        by (simp add: mongoStep_def m docs' sorted')
      show "distinct (map sd_strokeId (findRoom (mongoStep room db UndoLast) room))"
        using dist by (simp add: mongoStep_def m docs' snoc)
      show "list_all oneStroke (findRoom (mongoStep room db UndoLast) room)"
        using strokes by (simp add: mongoStep_def m docs' snoc)
      show "distinctIds (mongoStep room db UndoLast)"
        using ids by (simp add: mongoStep_def m distinctIds_deleteOne)
      show "fileForRoom room \<notin> set (unwritable (fileStep room fs UndoLast))"
        using w by (simp add: fileStep_def f)
    qed
    then show ?thesis by (simp add: f m loaded kept)
  qed
qed

lemma inStep_step:
  assumes "inStep room fs db" and "admissible room db op"
  shows "inStep room (fileStep room fs op) (mongoStep room db op)"
proof (cases op)
  case (Append now pt)
  with assms show ?thesis
    by (cases "pt_type pt = js ''start''") (simp_all add: inStep_start inStep_draw)
next
  case ClearLog
  with assms show ?thesis by (simp add: inStep_clear)
next
  case UndoLast
  with assms show ?thesis by (simp add: inStep_undo)
qed

lemma inStep_run:
  "inStep room fs db \<Longrightarrow> contiguous room db ops
     \<Longrightarrow> inStep room (fileRun room fs ops) (mongoRun room db ops)"
proof (induction ops arbitrary: fs db)
  case Nil
  then show ?case by (simp add: fileRun_def mongoRun_def)
next
  case (Cons op ops)
  from Cons.prems have "inStep room (fileStep room fs op) (mongoStep room db op)"
    by (simp add: inStep_step)
  moreover from Cons.prems have "contiguous room (mongoStep room db op) ops" by simp
  ultimately have "inStep room (fileRun room (fileStep room fs op) ops)
      (mongoRun room (mongoStep room db op) ops)"
    by (rule Cons.IH)
  then show ?case by (simp add: fileRun_def mongoRun_def)
qed

lemma inStep_loads:
  assumes "inStep room fs db"
  shows "\<exists>L. loadStrokes fs room = JArr L \<and> map drawn L = map drawn (mongoLoadAllPoints db room)"
proof -
  from assms obtain L where "loadStrokes fs room = JArr L"
    and "map drawn L = map drawn (concat (map sd_points (findRoom db room)))"
    and "sorted_wrt (<) (map sd_createdAt (findRoom db room))"
    by (rule inStepE)
  then show ?thesis
    by (simp add: mongoLoadAllPoints_def sortCreatedAt_sorted)
qed

text \<open>
  Claim C2, as amended. Start with a room that is empty in both backends, a writable
  log file and a database with distinct ids, and apply the same appends, clears and
  undos to both, the strokes arriving one after the other (\<open>contiguous\<close>). Then the
  database's \<open>loadAll\<close> and the file's return the same sequence of drawn points (the
  fields x, y, type, color and width, in the same order), and an undo returns the same
  sequence of drawn points on both.
\<close>

theorem backends_agree_on_contiguous_strokes:
  assumes "loadStrokes fs room = JArr []" and "fileForRoom room \<notin> set (unwritable fs)"
    and "findRoom db room = []" and "distinctIds db"
    and "contiguous room db ops"
  shows "(\<exists>L. loadStrokes (fileRun room fs ops) room = JArr L
            \<and> map drawn L = map drawn (mongoLoadAllPoints (mongoRun room db ops) room))
       \<and> map drawn (snd (removeLastStroke (fileRun room fs ops) room))
           = map drawn (snd (mongoUndo (mongoRun room db ops) room))"
proof -
  have "inStep room fs db"
    using assms(1-4) by (simp add: inStep_def)
  then have "inStep room (fileRun room fs ops) (mongoRun room db ops)"
    using assms(5) by (rule inStep_run)
  then show ?thesis
    using inStep_loads inStep_undo by blast
qed


lemmas eval_mongo = mongoStep_def mongoAppendPoint_def mongoUndo_def mongoClear_def
  mongoLoadAllPoints_def findRoom_def sortCreatedAt_def newestDoc_def admissible_def
  strokeIdOrLegacy_def castPoint_def Let_def

lemmas eval_file = fileStep_def appendStroke_cases loadStrokes_cases saveStrokes_cases
  removeLastStroke_def Let_def

theorem backends_agree_witness:
  "loadStrokes emptyDisk (js ''alpha'') = JArr []
   \<and> fileForRoom (js ''alpha'') \<notin> set (unwritable emptyDisk)
   \<and> findRoom (mongo gallery) (js ''alpha'') = []
   \<and> distinctIds (mongo gallery)
   \<and> contiguous (js ''alpha'') (mongo gallery) oneAfterTheOther
   \<and> loadStrokes (fileRun (js ''alpha'') emptyDisk oneAfterTheOther) (js ''alpha'')
       = JArr [startPoint 0 0 (js ''#000000'') 5 (js ''s1''),
               drawPoint 5 5 (js ''#000000'') 5 (js ''s1'')]
   \<and> mongoLoadAllPoints (mongoRun (js ''alpha'') (mongo gallery) oneAfterTheOther) (js ''alpha'')
       = [castPoint (startPoint 0 0 (js ''#000000'') 5 (js ''s1'')) 1,
          castPoint (drawPoint 5 5 (js ''#000000'') 5 (js ''s1'')) 2]
   \<and> (\<exists>L. loadStrokes (fileRun (js ''alpha'') emptyDisk oneAfterTheOther) (js ''alpha'') = JArr L
          \<and> map drawn L
             = map drawn (mongoLoadAllPoints
                            (mongoRun (js ''alpha'') (mongo gallery) oneAfterTheOther)
                            (js ''alpha'')))
   \<and> map drawn (snd (removeLastStroke (fileRun (js ''alpha'') emptyDisk oneAfterTheOther)
                        (js ''alpha'')))
       = map drawn (snd (mongoUndo (mongoRun (js ''alpha'') (mongo gallery) oneAfterTheOther)
                           (js ''alpha'')))"
proof -
  have 1: "loadStrokes emptyDisk (js ''alpha'') = JArr []"
    by (simp add: loadStrokes_cases emptyDisk_def)
  have 2: "fileForRoom (js ''alpha'') \<notin> set (unwritable emptyDisk)"
    by (simp add: emptyDisk_def)
  have 3: "findRoom (mongo gallery) (js ''alpha'') = []"
    by (simp add: findRoom_def gallery_def js_simps)
  have 4: "distinctIds (mongo gallery)" by (rule gallery_facts)
  have 5: "contiguous (js ''alpha'') (mongo gallery) oneAfterTheOther"
    by (simp add: oneAfterTheOther_def gallery_def eval_mongo eval_points)
  have 6: "loadStrokes (fileRun (js ''alpha'') emptyDisk oneAfterTheOther) (js ''alpha'')
       = JArr [startPoint 0 0 (js ''#000000'') 5 (js ''s1''),
               drawPoint 5 5 (js ''#000000'') 5 (js ''s1'')]"
    by (simp add: fileRun_def oneAfterTheOther_def emptyDisk_def eval_file eval_points)
  have 7: "mongoLoadAllPoints (mongoRun (js ''alpha'') (mongo gallery) oneAfterTheOther)
        (js ''alpha'')
       = [castPoint (startPoint 0 0 (js ''#000000'') 5 (js ''s1'')) 1,
          castPoint (drawPoint 5 5 (js ''#000000'') 5 (js ''s1'')) 2]"
    by (simp add: mongoRun_def oneAfterTheOther_def gallery_def eval_mongo eval_points)
  note T = backends_agree_on_contiguous_strokes [OF 1 2 3 4 5]
  from 1 2 3 4 5 6 7 T show ?thesis by blast
qed

text \<open>
  When two strokes interleave the backends part: the file keeps the order of arrival,
  the database returns one stroke after the other, and undo removes the points from the
  last \<open>start\<close> on in the file but the whole last-created stroke in the database.
\<close>

theorem backends_differ_on_interleaved_strokes:
  "loadStrokes (fileRun (js ''alpha'') emptyDisk interleaved) (js ''alpha'')
     = JArr [startPoint 0 0 (js ''#000000'') 5 (js ''a''),
             startPoint 9 9 (js ''#ff0000'') 3 (js ''b''),
             drawPoint 1 1 (js ''#000000'') 5 (js ''a''),
             drawPoint 8 8 (js ''#ff0000'') 3 (js ''b'')]
   \<and> mongoLoadAllPoints (mongoRun (js ''alpha'') emptyDatabase interleaved) (js ''alpha'')
     = [castPoint (startPoint 0 0 (js ''#000000'') 5 (js ''a'')) 1,
        castPoint (drawPoint 1 1 (js ''#000000'') 5 (js ''a'')) 3,
        castPoint (startPoint 9 9 (js ''#ff0000'') 3 (js ''b'')) 2,
        castPoint (drawPoint 8 8 (js ''#ff0000'') 3 (js ''b'')) 4]
   \<and> map drawn [startPoint 0 0 (js ''#000000'') 5 (js ''a''),
                 startPoint 9 9 (js ''#ff0000'') 3 (js ''b''),
                 drawPoint 1 1 (js ''#000000'') 5 (js ''a''),
                 drawPoint 8 8 (js ''#ff0000'') 3 (js ''b'')]
       \<noteq> map drawn (mongoLoadAllPoints (mongoRun (js ''alpha'') emptyDatabase interleaved)
                         (js ''alpha''))
   \<and> snd (removeLastStroke (fileRun (js ''alpha'') emptyDisk interleaved) (js ''alpha''))
     = [startPoint 0 0 (js ''#000000'') 5 (js ''a'')]
   \<and> snd (mongoUndo (mongoRun (js ''alpha'') emptyDatabase interleaved) (js ''alpha''))
     = [castPoint (startPoint 0 0 (js ''#000000'') 5 (js ''a'')) 1,
        castPoint (drawPoint 1 1 (js ''#000000'') 5 (js ''a'')) 3]"
proof -
  have f: "fileRun (js ''alpha'') emptyDisk interleaved
      = diskWith (js ''alpha'')
          [startPoint 0 0 (js ''#000000'') 5 (js ''a''),
           startPoint 9 9 (js ''#ff0000'') 3 (js ''b''),
           drawPoint 1 1 (js ''#000000'') 5 (js ''a''),
           drawPoint 8 8 (js ''#ff0000'') 3 (js ''b'')]"
    by (simp add: fileRun_def interleaved_def emptyDisk_def diskWith_def eval_file)
  have 1: "loadStrokes (fileRun (js ''alpha'') emptyDisk interleaved) (js ''alpha'')
     = JArr [startPoint 0 0 (js ''#000000'') 5 (js ''a''),
             startPoint 9 9 (js ''#ff0000'') 3 (js ''b''),
             drawPoint 1 1 (js ''#000000'') 5 (js ''a''),
             drawPoint 8 8 (js ''#ff0000'') 3 (js ''b'')]"
    by (simp only: f load_diskWith)
  have 2: "mongoLoadAllPoints (mongoRun (js ''alpha'') emptyDatabase interleaved) (js ''alpha'')
     = [castPoint (startPoint 0 0 (js ''#000000'') 5 (js ''a'')) 1,
        castPoint (drawPoint 1 1 (js ''#000000'') 5 (js ''a'')) 3,
        castPoint (startPoint 9 9 (js ''#ff0000'') 3 (js ''b'')) 2,
        castPoint (drawPoint 8 8 (js ''#ff0000'') 3 (js ''b'')) 4]"
    by (simp add: mongoRun_def interleaved_def emptyDatabase_def eval_mongo eval_points)
  have 3: "map drawn [startPoint 0 0 (js ''#000000'') 5 (js ''a''),
                 startPoint 9 9 (js ''#ff0000'') 3 (js ''b''),
                 drawPoint 1 1 (js ''#000000'') 5 (js ''a''),
                 drawPoint 8 8 (js ''#ff0000'') 3 (js ''b'')]
       \<noteq> map drawn (mongoLoadAllPoints (mongoRun (js ''alpha'') emptyDatabase interleaved)
                         (js ''alpha''))"
    unfolding 2 by (simp add: drawn_def eval_points castPoint_def)
  have 4: "snd (removeLastStroke (fileRun (js ''alpha'') emptyDisk interleaved) (js ''alpha''))
     = [startPoint 0 0 (js ''#000000'') 5 (js ''a'')]"
    unfolding f by (simp add: removeLastStroke_result [OF load_diskWith] eval_points)
  have 5: "snd (mongoUndo (mongoRun (js ''alpha'') emptyDatabase interleaved) (js ''alpha''))
     = [castPoint (startPoint 0 0 (js ''#000000'') 5 (js ''a'')) 1,
        castPoint (drawPoint 1 1 (js ''#000000'') 5 (js ''a'')) 3]"
    by (simp add: mongoRun_def interleaved_def emptyDatabase_def eval_mongo eval_points)
  from 1 2 3 4 5 show ?thesis by blast
qed

end
